theory Spec2Isabelle
  imports Main
begin

section \<open>Lineup reconstruction of pvd\_Sofascore.py\<close>

text \<open>
  The development embeds the lineup part of \<^verbatim>\<open>src/pvd_Sofascore.py\<close>: the pure
  function \<^verbatim>\<open>determine_position\<close> and the batch function
  \<^verbatim>\<open>get_lineups_from_events\<close> that parses formations, walks the two rosters of a
  match and merges the rows with the average positions.

  Python integers are \<^typ>\<open>int\<close>, Python strings are \<^typ>\<open>string\<close> (ASCII), \<^verbatim>\<open>None\<close> is
  \<^term>\<open>None\<close>, and an exception is a value of \<open>py_error\<close> on the left of a sum.
\<close>

subsection \<open>Python built-ins used by the code\<close>

datatype py_error = ValueError | IndexError | KeyError | UnboundLocalError | HTTPError

text \<open>Sequencing of steps that may raise: the first exception ends the computation.\<close>

definition bind_err :: "'e + 'a \<Rightarrow> ('a \<Rightarrow> 'e + 'b) \<Rightarrow> 'e + 'b" where
  "bind_err r f = (case r of Inl e \<Rightarrow> Inl e | Inr x \<Rightarrow> f x)"

text \<open>
  \<^verbatim>\<open>str(n)\<close> as used by an f-string field \<^verbatim>\<open>{n}\<close> on an integer. \<open>str_int\<close> is the
  decimal text. The interpreter (CPython 3.11 and later, and the security releases of
  3.7 to 3.10) refuses the conversion of an integer of more than
  \<^verbatim>\<open>sys.int_info.default_max_str_digits\<close> = 4300 decimal digits, sign not counted, with a
  \<^verbatim>\<open>ValueError\<close>; the code never changes that limit.
\<close>

definition digit_char :: "nat \<Rightarrow> char" where
  "digit_char n = ''0123456789'' ! n"

fun str_nat :: "nat \<Rightarrow> string" where
  "str_nat n = (if n < 10 then [digit_char n] else str_nat (n div 10) @ [digit_char (n mod 10)])"

declare str_nat.simps [simp del]

definition str_int :: "int \<Rightarrow> string" where
  "str_int i = (if i < 0 then CHR ''-'' # str_nat (nat (- i)) else str_nat (nat i))"

definition max_str_digits :: nat where
  "max_str_digits = 4300"

definition py_str :: "int \<Rightarrow> py_error + string" where
  "py_str i =
     (if max_str_digits < length (str_nat (nat \<bar>i\<bar>)) then Inl ValueError
      else Inr (str_int i))"

subsection \<open>determine\_position\<close>

text \<open>
  \<^verbatim>\<open>
  def determine_position(order, def_count, mid_0_count, mid_1_count, mid_2_count,
                         ata_count, substitute):
      home_por = 1
      if order == home_por:
          line = 'por'; lat = '1/1'; pos = 'POR'
      elif order <= home_por + def_count:
          line = 'def'; lat = f'{order - home_por}/{def_count}'; pos = 'DEF'
      elif order <= home_por + def_count + mid_0_count:
          line = 'mid_0'; lat = f'{order - home_por - def_count}/{mid_0_count}'; pos = 'MED'
      elif order <= home_por + def_count + mid_0_count + mid_1_count:
          line = 'mid_1'; lat = f'{order - home_por - def_count - mid_0_count}/{mid_1_count}'
          pos = 'MED'
      elif order <= home_por + def_count + mid_0_count + mid_1_count + mid_2_count:
          line = 'mid_2'
          lat = f'{order - home_por - def_count - mid_0_count - mid_1_count}/{mid_2_count}'
          pos = 'MED'
      elif order <= home_por + def_count + mid_0_count + mid_1_count + mid_2_count + ata_count:
          line = 'ata'
          lat = f'{order - home_por - def_count - mid_0_count - mid_1_count - mid_2_count}/{ata_count}'
          pos = 'ATA'
      elif order > 11 and substitute:
          line = None; lat = None; pos = 'SUS'
      elif order > 11 and not substitute:
          line = None; lat = None; pos = 'RES'
      else:
          line = None; lat = None; pos = None
      return line, lat, pos
  \<close>
  The body compares, adds and subtracts integers and tests a boolean, which never raises,
  and formats two integers in each group branch, which raises \<^verbatim>\<open>ValueError\<close> past the
  digit limit: the result is the triple or that exception.
\<close>

text \<open>The f-string \<^verbatim>\<open>f'{k}/{n}'\<close>: \<open>k\<close> is formatted first, then \<open>n\<close>.\<close>

definition lat_str :: "int \<Rightarrow> int \<Rightarrow> py_error + string" where
  "lat_str k n =
     bind_err (py_str k) (\<lambda>numerator.
     bind_err (py_str n) (\<lambda>denominator.
       Inr (numerator @ ''/'' @ denominator)))"

type_synonym position = "string option \<times> string option \<times> string option"

definition determine_position ::
  "int \<Rightarrow> int \<Rightarrow> int \<Rightarrow> int \<Rightarrow> int \<Rightarrow> int \<Rightarrow> bool \<Rightarrow> py_error + position" where
  "determine_position order def_count mid_0_count mid_1_count mid_2_count ata_count substitute =
    (let home_por = 1 in
     if order = home_por then
       Inr (Some ''por'', Some ''1/1'', Some ''POR'')
     else if order \<le> home_por + def_count then
       bind_err (lat_str (order - home_por) def_count)
         (\<lambda>lat. Inr (Some ''def'', Some lat, Some ''DEF''))
     else if order \<le> home_por + def_count + mid_0_count then
       bind_err (lat_str (order - home_por - def_count) mid_0_count)
         (\<lambda>lat. Inr (Some ''mid_0'', Some lat, Some ''MED''))
     else if order \<le> home_por + def_count + mid_0_count + mid_1_count then
       bind_err (lat_str (order - home_por - def_count - mid_0_count) mid_1_count)
         (\<lambda>lat. Inr (Some ''mid_1'', Some lat, Some ''MED''))
     else if order \<le> home_por + def_count + mid_0_count + mid_1_count + mid_2_count then
       bind_err (lat_str (order - home_por - def_count - mid_0_count - mid_1_count) mid_2_count)
         (\<lambda>lat. Inr (Some ''mid_2'', Some lat, Some ''MED''))
     else if order \<le> home_por + def_count + mid_0_count + mid_1_count + mid_2_count + ata_count
     then
       bind_err
         (lat_str (order - home_por - def_count - mid_0_count - mid_1_count - mid_2_count)
            ata_count)
         (\<lambda>lat. Inr (Some ''ata'', Some lat, Some ''ATA''))
     else if order > 11 \<and> substitute then Inr (None, None, Some ''SUS'')
     else if order > 11 \<and> \<not> substitute then Inr (None, None, Some ''RES'')
     else Inr (None, None, None))"

subsection \<open>More built-ins: split, int, indexing\<close>

text \<open>
  \<^verbatim>\<open>s.split('-')\<close>: the pieces between the dashes, empty pieces kept; a string with
  \<open>n\<close> dashes gives \<open>n + 1\<close> pieces.
\<close>

function split_dash :: "string \<Rightarrow> string list" where
  "split_dash s =
    (case dropWhile (\<lambda>c. c \<noteq> CHR ''-'') s of
       [] \<Rightarrow> [takeWhile (\<lambda>c. c \<noteq> CHR ''-'') s]
     | _ # rest \<Rightarrow> takeWhile (\<lambda>c. c \<noteq> CHR ''-'') s # split_dash rest)"
  by pat_completeness auto
termination
proof (relation "measure length")
  fix s :: string and c rest
  assume "dropWhile (\<lambda>c. c \<noteq> CHR ''-'') s = c # rest"
  then have "length (c # rest) \<le> length s"
    by (metis length_dropWhile_le)
  then show "(rest, s) \<in> measure length" by simp
qed simp

declare split_dash.simps [simp del]

text \<open>
  \<^verbatim>\<open>int(s)\<close> on a string, base 10: surrounding whitespace (tab, line feed, vertical tab,
  form feed, carriage return, space) is stripped, one sign is allowed, then decimal
  digits, with single underscores allowed between digits; anything else is a
  \<^verbatim>\<open>ValueError\<close>, and so is a literal of more than 4300 digits (every digit counts, also a
  leading zero; the sign and the underscores do not). Strings are ASCII here.
\<close>

definition is_space :: "char \<Rightarrow> bool" where
  "is_space c \<longleftrightarrow>
     c \<in> set [CHR 0x09, CHR 0x0A, CHR 0x0B, CHR 0x0C, CHR 0x0D, CHR 0x20]"

definition strip :: "string \<Rightarrow> string" where
  "strip s = rev (dropWhile is_space (rev (dropWhile is_space s)))"

definition digit_val :: "char \<Rightarrow> nat option" where
  "digit_val c =
     map_of [(CHR ''0'', 0), (CHR ''1'', 1), (CHR ''2'', 2), (CHR ''3'', 3), (CHR ''4'', 4),
             (CHR ''5'', 5), (CHR ''6'', 6), (CHR ''7'', 7), (CHR ''8'', 8), (CHR ''9'', 9)] c"

text \<open>The digits after the first one; \<open>acc\<close> is the value read so far.\<close>

fun int_body :: "nat \<Rightarrow> string \<Rightarrow> nat option" where
  "int_body acc [] = Some acc"
| "int_body acc [c] =
     (case digit_val c of None \<Rightarrow> None | Some v \<Rightarrow> Some (10 * acc + v))"
| "int_body acc (c # c' # cs) =
     (if c = CHR ''_'' then
        (case digit_val c' of None \<Rightarrow> None | Some v \<Rightarrow> int_body (10 * acc + v) cs)
      else
        (case digit_val c of None \<Rightarrow> None | Some v \<Rightarrow> int_body (10 * acc + v) (c' # cs)))"

definition int_digits :: "string \<Rightarrow> nat option" where
  "int_digits body =
     (case body of [] \<Rightarrow> None
      | c # cs \<Rightarrow> (case digit_val c of None \<Rightarrow> None | Some v \<Rightarrow> int_body v cs))"

definition py_int :: "string \<Rightarrow> py_error + int" where
  "py_int s =
    (let t = strip s;
         neg = (t \<noteq> [] \<and> hd t = CHR ''-'');
         body = (if t \<noteq> [] \<and> (hd t = CHR ''-'' \<or> hd t = CHR ''+'') then tl t else t)
     in case int_digits body of
          None \<Rightarrow> Inl ValueError
        | Some n \<Rightarrow>
            if max_str_digits < length (filter (\<lambda>c. c \<noteq> CHR ''_'') body) then Inl ValueError
            else Inr (if neg then - int n else int n))"

text \<open>\<^verbatim>\<open>xs[i]\<close>: a negative index counts from the end, out of range is an \<^verbatim>\<open>IndexError\<close>.\<close>

definition py_index :: "'a list \<Rightarrow> int \<Rightarrow> py_error + 'a" where
  "py_index xs i =
    (if 0 \<le> i \<and> i < int (length xs) then Inr (xs ! nat i)
     else if i < 0 \<and> - int (length xs) \<le> i then Inr (xs ! nat (int (length xs) + i))
     else Inl IndexError)"

subsection \<open>Formation parsing in get\_lineups\_from\_events\<close>

text \<open>
  \<^verbatim>\<open>
  home_groups_formation = home_formation.split('-')
  home_def = int(home_groups_formation[0])
  home_ata = int(home_groups_formation[-1])
  if len(home_groups_formation) == 4:
      home_mid_0 = int(home_groups_formation[1])
      home_mid_1 = 0
      home_mid_2 = int(home_groups_formation[2])
  else:
      home_mid_0 = 0
      home_mid_1 = int(home_groups_formation[1])
      home_mid_2 = 0
  \<close>
  The same text is repeated for the away side. The result is the tuple
  \<open>(def, mid_0, mid_1, mid_2, ata)\<close>.
\<close>

type_synonym counts = "int \<times> int \<times> int \<times> int \<times> int"

definition group_int :: "string list \<Rightarrow> int \<Rightarrow> py_error + int" where
  "group_int groups i = bind_err (py_index groups i) py_int"

definition formation_counts :: "string \<Rightarrow> py_error + counts" where
  "formation_counts formation =
    (let groups = split_dash formation in
     bind_err (group_int groups 0) (\<lambda>def_count.
     bind_err (group_int groups (- 1)) (\<lambda>ata_count.
       if length groups = 4 then
         bind_err (group_int groups 1) (\<lambda>mid_0.
         bind_err (group_int groups 2) (\<lambda>mid_2.
           Inr (def_count, mid_0, 0, mid_2, ata_count)))
       else
         bind_err (group_int groups 1) (\<lambda>mid_1.
           Inr (def_count, 0, mid_1, 0, ata_count)))))"

subsection \<open>The data handed in by the data source\<close>

text \<open>
  One entry of \<^verbatim>\<open>lineups[side]['players']\<close>. The keys the code reads with
  \<^verbatim>\<open>.get(key, default)\<close> may be absent (\<^term>\<open>None\<close>); the others are read with
  \<^verbatim>\<open>[...]\<close> and are fields of the record.
\<close>

record player_json =
  player_name :: string
  player_id :: int
  shirtNumber :: int
  position_key :: "string option"
  substitute_flag :: bool
  minutesPlayed :: "int option"

text \<open>
  One entry of \<^verbatim>\<open>average_positions[side]\<close>. The coordinates are only copied, never
  computed with, so their type is a parameter.
\<close>

record 'c avg_json =
  avg_player_id :: int
  averageX :: 'c
  averageY :: 'c
  pointsCount :: int

record side_json =
  formation :: string
  players :: "player_json list"

record lineups_json =
  home :: side_json
  away :: side_json

record 'c average_positions_json =
  avg_home :: "'c avg_json list"
  avg_away :: "'c avg_json list"

record event_json =
  status_type :: string
  homeTeam_shortName :: string
  awayTeam_shortName :: string

text \<open>
  An event of the batch, as the three requests \<^verbatim>\<open>get_event_data\<close>,
  \<^verbatim>\<open>get_lineups\<close> and \<^verbatim>\<open>get_average_positions\<close> answer for its id: each either
  raises (\<^verbatim>\<open>raise_for_status\<close>) or returns the parsed JSON.
\<close>

record 'c event =
  event_data :: "py_error + event_json"
  lineups :: "py_error + lineups_json"
  average_positions :: "py_error + 'c average_positions_json"

subsection \<open>Rows and the pandas operations\<close>

text \<open>
  A row of \<^verbatim>\<open>home_df\<close>/\<^verbatim>\<open>away_df\<close>: the ten values appended per player and the six
  columns set on the whole frame.
\<close>

record lineup_row =
  row_player :: string
  row_id :: int
  row_jersey :: int
  row_position :: string
  row_substitute :: bool
  row_minutes :: int
  row_order :: int
  row_line :: "string option"
  row_lat :: "string option"
  row_pos :: "string option"
  row_local :: string
  row_team :: string
  row_formation :: string
  row_defense :: int
  row_midfield :: int
  row_attack :: int

text \<open>
  A row of the merged frame: the lineup row and the three spatial columns
  \<^verbatim>\<open>averageX\<close>, \<^verbatim>\<open>averageY\<close>, \<^verbatim>\<open>pointsCount\<close>, which are all null (\<^term>\<open>None\<close>) when
  the left join found no partner.
\<close>

type_synonym 'c merged_row = "lineup_row \<times> ('c \<times> 'c \<times> int) option"

text \<open>
  \<^verbatim>\<open>pd.merge(df, df_avg_position, on='id', how='left')\<close>: every left row, in order, once
  for each right row with the same id, and once with null right columns when there is none.
\<close>

definition pd_merge_left :: "lineup_row list \<Rightarrow> 'c avg_json list \<Rightarrow> 'c merged_row list" where
  "pd_merge_left df df_avg_position =
     concat (map (\<lambda>r.
       (case filter (\<lambda>s. avg_player_id s = row_id r) df_avg_position of
          [] \<Rightarrow> [(r, None)]
        | m # ms \<Rightarrow> map (\<lambda>s. (r, Some (averageX s, averageY s, pointsCount s))) (m # ms))) df)"

text \<open>
  \<^verbatim>\<open>pd.concat(dfs, ignore_index=True)\<close>: the rows of the frames one after the other;
  on an empty list pandas raises \<^verbatim>\<open>ValueError: No objects to concatenate\<close>.
\<close>

definition pd_concat :: "'a list list \<Rightarrow> py_error + 'a list" where
  "pd_concat dfs = (if dfs = [] then Inl ValueError else Inr (concat dfs))"

subsection \<open>get\_lineups\_from\_events\<close>

text \<open>
  The loop over one side's players:
  \<^verbatim>\<open>
  for j in range(len(lineups['home']['players'])):
      player = lineups['home']['players'][j]
      name = player['player']['name']
      id = player['player']['id']
      jersey = player['shirtNumber']
      position = player.get('position', '')
      substitute = player['substitute']
      minutes = player.get('statistics', {}).get('minutesPlayed', 0)
      if j < len(average_positions['home']):
          avg_player = average_positions['home'][j]
          avg_id = avg_player['player']['id']
          averageX = avg_player['averageX']
          averageY = avg_player['averageY']
          pointsCount = avg_player['pointsCount']
      order = j + 1
      line, lat, pos = determine_position(order, home_def, home_mid_0, home_mid_1,
                                          home_mid_2, home_ata, substitute)
      home.append([name, id, jersey, position, substitute, minutes, order, line, lat, pos])
      home_avg.append([avg_id, averageX, averageY, pointsCount])
  \<close>
  The four variables \<^verbatim>\<open>avg_id\<close>, \<^verbatim>\<open>averageX\<close>, \<^verbatim>\<open>averageY\<close>, \<^verbatim>\<open>pointsCount\<close> are locals
  of the whole function, assigned together and only under the guard. They are the state
  \<open>avg_vars\<close> of the model: \<^term>\<open>None\<close> while unbound, else the sample last read, kept from
  one iteration, one side and one event to the next. Reading them unbound raises
  \<^verbatim>\<open>UnboundLocalError\<close>.

  The frame columns \<^verbatim>\<open>local\<close>, \<^verbatim>\<open>team\<close>, \<^verbatim>\<open>formation\<close>, \<^verbatim>\<open>defense\<close>, \<^verbatim>\<open>midfield\<close>,
  \<^verbatim>\<open>attack\<close> that the source sets after the loop are the same on every row of a side;
  the model writes them when it builds the row (\<open>local\<close>, \<open>team\<close>, \<open>form\<close> below).
\<close>

definition make_row ::
  "string \<Rightarrow> string \<Rightarrow> string \<Rightarrow> counts \<Rightarrow> nat \<Rightarrow> player_json \<Rightarrow> py_error + lineup_row"
  where
  "make_row local team form cs j player =
    (case cs of (def_count, mid_0, mid_1, mid_2, ata_count) \<Rightarrow>
     (let order = int j + 1;
          substitute = substitute_flag player
      in bind_err (determine_position order def_count mid_0 mid_1 mid_2 ata_count substitute)
         (\<lambda>(line, lat, pos).
           Inr \<lparr> row_player = player_name player,
                 row_id = player_id player,
                 row_jersey = shirtNumber player,
                 row_position = (case position_key player of None \<Rightarrow> [] | Some p \<Rightarrow> p),
                 row_substitute = substitute,
                 row_minutes = (case minutesPlayed player of None \<Rightarrow> 0 | Some m \<Rightarrow> m),
                 row_order = order,
                 row_line = line, row_lat = lat, row_pos = pos,
                 row_local = local, row_team = team, row_formation = form,
                 row_defense = def_count,
                 row_midfield = mid_0 + mid_1 + mid_2,
                 row_attack = ata_count \<rparr>)))"

text \<open>
  In one iteration the guard comes first, then \<^verbatim>\<open>determine_position\<close> (which may raise),
  then the two appends, the second of which reads the four locals.
\<close>

fun team_loop ::
  "(nat \<Rightarrow> player_json \<Rightarrow> py_error + lineup_row) \<Rightarrow> 'c avg_json list \<Rightarrow>
   'c avg_json option \<Rightarrow> nat \<Rightarrow> player_json list \<Rightarrow>
   'c avg_json option \<times> (py_error + lineup_row list \<times> 'c avg_json list)"
  where
  "team_loop mk avgs avg_vars j [] = (avg_vars, Inr ([], []))"
| "team_loop mk avgs avg_vars j (player # rest) =
    (let avg_vars' = (if j < length avgs then Some (avgs ! j) else avg_vars) in
     case mk j player of
       Inl e \<Rightarrow> (avg_vars', Inl e)
     | Inr row \<Rightarrow>
        (case avg_vars' of
           None \<Rightarrow> (avg_vars', Inl UnboundLocalError)
         | Some s \<Rightarrow>
            (case team_loop mk avgs avg_vars' (Suc j) rest of
               (v, Inl e) \<Rightarrow> (v, Inl e)
             | (v, Inr (rows, avg_rows)) \<Rightarrow> (v, Inr (row # rows, s # avg_rows)))))"

text \<open>
  The body of the \<^verbatim>\<open>try\<close> for one event. The result is the state of the four locals
  after the body and either the exception that left it, \<^term>\<open>Inr None\<close> when the event
  is not finished (nothing is appended to \<^verbatim>\<open>dfs\<close>), or the merged frame appended.
\<close>

definition process_event ::
  "'c avg_json option \<Rightarrow> 'c event \<Rightarrow>
   'c avg_json option \<times> (py_error + 'c merged_row list option)" where
  "process_event avg_vars ev =
    (case event_data ev of Inl e \<Rightarrow> (avg_vars, Inl e) | Inr data \<Rightarrow>
     if status_type data \<noteq> ''finished'' then (avg_vars, Inr None) else
     (case lineups ev of Inl e \<Rightarrow> (avg_vars, Inl e) | Inr lu \<Rightarrow>
     (case average_positions ev of Inl e \<Rightarrow> (avg_vars, Inl e) | Inr ap \<Rightarrow>
     (case formation_counts (formation (home lu)) of Inl e \<Rightarrow> (avg_vars, Inl e) | Inr hc \<Rightarrow>
     (case formation_counts (formation (away lu)) of Inl e \<Rightarrow> (avg_vars, Inl e) | Inr ac \<Rightarrow>
     (case team_loop (make_row ''Home'' (homeTeam_shortName data) (formation (home lu)) hc)
             (avg_home ap) avg_vars 0 (players (home lu)) of
        (v1, Inl e) \<Rightarrow> (v1, Inl e)
      | (v1, Inr (home_rows, home_avg)) \<Rightarrow>
     (case team_loop (make_row ''Away'' (awayTeam_shortName data) (formation (away lu)) ac)
             (avg_away ap) v1 0 (players (away lu)) of
        (v2, Inl e) \<Rightarrow> (v2, Inl e)
      | (v2, Inr (away_rows, away_avg)) \<Rightarrow>
          (v2, Inr (Some (pd_merge_left (home_rows @ away_rows) (home_avg @ away_avg)))))))))))"

text \<open>
  \<^verbatim>\<open>
  dfs = []
  for i in range(len(events)):
      ...
      try:
          ... dfs.append(df_merged)
      except Exception as e:
          print(f"Error in processing lineup for event {event_id}: {e}")
  lineups_df = pd.concat(dfs, ignore_index=True)
  ...
  return lineups_df
  \<close>
  \<open>events_loop\<close> is the list \<^verbatim>\<open>dfs\<close> after the loop; waiting, printing and the CSV file
  are effects outside the model.
\<close>

fun events_loop :: "'c avg_json option \<Rightarrow> 'c event list \<Rightarrow> 'c merged_row list list" where
  "events_loop avg_vars [] = []"
| "events_loop avg_vars (ev # rest) =
    (case process_event avg_vars ev of
       (v, Inr (Some df_merged)) \<Rightarrow> df_merged # events_loop v rest
     | (v, Inr None) \<Rightarrow> events_loop v rest
     | (v, Inl e) \<Rightarrow> events_loop v rest)"

definition get_lineups_from_events :: "'c event list \<Rightarrow> py_error + 'c merged_row list" where
  "get_lineups_from_events events = pd_concat (events_loop None events)"

subsection \<open>The groups as the claims speak of them\<close>

text \<open>
  The size of the group behind a line label, the line of a result (none when the call
  raised), and the orders of a roster of \<open>n\<close> players (orders \<open>1..n\<close>, player \<open>j\<close>
  carrying the substitute flag \<open>subs j\<close>) that \<open>determine_position\<close> resolves into a
  given line.
\<close>

definition group_size :: "string \<Rightarrow> int \<Rightarrow> int \<Rightarrow> int \<Rightarrow> int \<Rightarrow> int \<Rightarrow> int" where
  "group_size line d m0 m1 m2 a =
    (if line = ''por'' then 1 else if line = ''def'' then d
     else if line = ''mid_0'' then m0 else if line = ''mid_1'' then m1
     else if line = ''mid_2'' then m2 else if line = ''ata'' then a else 0)"

definition line_of :: "py_error + position \<Rightarrow> string option" where
  "line_of r = (case r of Inl e \<Rightarrow> None | Inr t \<Rightarrow> fst t)"

definition line_orders ::
  "int \<Rightarrow> int \<Rightarrow> int \<Rightarrow> int \<Rightarrow> int \<Rightarrow> int \<Rightarrow> (int \<Rightarrow> bool) \<Rightarrow> string \<Rightarrow> int list" where
  "line_orders n d m0 m1 m2 a subs line =
     filter (\<lambda>j. line_of (determine_position j d m0 m1 m2 a (subs j)) = Some line) [1..n]"

text \<open>The text of a slot \<open>k/n\<close>, which \<open>lat_str\<close> returns when it does not raise.\<close>

definition slot_text :: "int \<Rightarrow> int \<Rightarrow> string" where
  "slot_text k n = str_int k @ ''/'' @ str_int n"

text \<open>A lateral slot that is a fraction \<open>k/n\<close> of the group of the line, \<open>1 \<le> k \<le> n\<close>.\<close>

definition slot_ok :: "int \<Rightarrow> int \<Rightarrow> int \<Rightarrow> int \<Rightarrow> int \<Rightarrow> string option \<Rightarrow> string \<Rightarrow> bool" where
  "slot_ok d m0 m1 m2 a line s \<longleftrightarrow>
     (\<exists>l k. line = Some l \<and> lat_str k (group_size l d m0 m1 m2 a) = Inr s \<and>
         1 \<le> k \<and> k \<le> group_size l d m0 m1 m2 a)"

text \<open>
  A valid formation string as the interface describes it: three or four groups between
  dashes, each a non-empty run of ASCII digits that \<^verbatim>\<open>int\<close> can read (at most 4300 of
  them).
\<close>

definition is_digit :: "char \<Rightarrow> bool" where
  "is_digit c \<longleftrightarrow> digit_val c \<noteq> None"

definition valid_formation :: "string \<Rightarrow> bool" where
  "valid_formation s \<longleftrightarrow>
     (length (split_dash s) = 3 \<or> length (split_dash s) = 4) \<and>
     (\<forall>g \<in> set (split_dash s).
        g \<noteq> [] \<and> length g \<le> max_str_digits \<and> (\<forall>c \<in> set g. is_digit c))"

subsection \<open>Concrete inputs\<close>

text \<open>
  Small well-formed inputs for evaluating the batch: a player and a sample with a given
  id, and a finished event with the given formation, roster ids and sample ids per side.
  \<open>row_view\<close> shows of a merged row the player id, the side, the order, the line, and
  whether the spatial columns are null.
\<close>

definition example_player :: "int \<Rightarrow> player_json" where
  "example_player i =
     \<lparr> player_name = ''P'', player_id = i, shirtNumber = i, position_key = None,
       substitute_flag = False, minutesPlayed = None \<rparr>"

definition example_sample :: "int \<Rightarrow> int avg_json" where
  "example_sample i = \<lparr> avg_player_id = i, averageX = 50, averageY = 40, pointsCount = 10 \<rparr>"

definition example_event ::
  "string \<Rightarrow> int list \<Rightarrow> int list \<Rightarrow> string \<Rightarrow> int list \<Rightarrow> int list \<Rightarrow> int event" where
  "example_event hf hp hs af ap as =
     \<lparr> event_data = Inr \<lparr> status_type = ''finished'', homeTeam_shortName = ''H'',
                           awayTeam_shortName = ''A'' \<rparr>,
       lineups = Inr \<lparr> home = \<lparr> formation = hf, players = map example_player hp \<rparr>,
                        away = \<lparr> formation = af, players = map example_player ap \<rparr> \<rparr>,
       average_positions = Inr \<lparr> avg_home = map example_sample hs,
                                  avg_away = map example_sample as \<rparr> \<rparr>"

definition row_view :: "int merged_row \<Rightarrow> int \<times> string \<times> int \<times> string option \<times> bool" where
  "row_view r = (row_id (fst r), row_local (fst r), row_order (fst r), row_line (fst r), snd r = None)"

section \<open>Facts about the built-ins\<close>

lemma is_digit_cases:
  "is_digit c \<longleftrightarrow> c \<in> set ''0123456789''"
  by (simp add: is_digit_def digit_val_def)

lemma digit_not_special:
  assumes "is_digit c"
  shows "\<not> is_space c" "c \<noteq> CHR ''-''" "c \<noteq> CHR ''+''" "c \<noteq> CHR ''_''"
  using assms by (auto simp add: is_digit_cases is_space_def)

lemma int_body_digits:
  "\<forall>c \<in> set cs. is_digit c \<Longrightarrow> \<exists>n. int_body acc cs = Some n"
proof (induction acc cs rule: int_body.induct)
  case (1 acc)
  then show ?case by simp
next
  case (2 acc c)
  then show ?case by (auto simp add: is_digit_def)
next
  case (3 acc c c' cs)
  from "3.prems" have c: "is_digit c" and rest: "\<forall>x \<in> set (c' # cs). is_digit x" by simp_all
  from c obtain v where v: "digit_val c = Some v" by (auto simp add: is_digit_def)
  from c have "c \<noteq> CHR ''_''" by (rule digit_not_special)
  with v "3.IH"(2) [of v] rest show ?case by simp
qed

lemma strip_digits:
  assumes "g \<noteq> []" and "\<forall>c \<in> set g. is_digit c"
  shows "strip g = g"
proof -
  from assms have "\<not> is_space (hd g)" by (simp add: digit_not_special)
  with assms(1) have a: "dropWhile is_space g = g" by (cases g) simp_all
  from assms have "\<not> is_space (last g)" by (simp add: digit_not_special)
  with assms(1) have "dropWhile is_space (rev g) = rev g"
    by (cases "rev g") (simp_all add: hd_rev [symmetric] del: hd_rev)
  with a show ?thesis by (simp add: strip_def)
qed

lemma digit_val_Some:
  assumes "digit_val c = Some v"
  shows "v \<le> 9" and "c \<noteq> CHR ''_''"
  using assms by (auto simp add: digit_val_def split: if_splits)

text \<open>What \<^verbatim>\<open>int\<close> reads is below ten to the number of its digits.\<close>

lemma int_body_bound:
  "int_body acc cs = Some n \<Longrightarrow>
     n < (acc + 1) * 10 ^ length (filter (\<lambda>c. c \<noteq> CHR ''_'') cs)"
proof (induction acc cs arbitrary: n rule: int_body.induct)
  case (1 acc)
  then show ?case by simp
next
  case (2 acc c)
  then obtain v where v: "digit_val c = Some v" and n: "n = 10 * acc + v"
    by (auto split: option.splits)
  from digit_val_Some [OF v] n show ?case by simp
next
  case (3 acc c c' cs)
  let ?f = "filter (\<lambda>c. c \<noteq> CHR ''_'')"
  show ?case
  proof (cases "c = CHR ''_''")
    case True
    with "3.prems" obtain v where v: "digit_val c' = Some v"
      and r: "int_body (10 * acc + v) cs = Some n"
      by (auto split: option.splits)
    from "3.IH"(1) [OF True v r] have "n < (10 * acc + v + 1) * 10 ^ length (?f cs)" .
    also from digit_val_Some(1) [OF v] have "10 * acc + v + 1 \<le> (acc + 1) * 10" by simp
    then have "(10 * acc + v + 1) * 10 ^ length (?f cs) \<le> (acc + 1) * 10 * 10 ^ length (?f cs)"
      by (rule mult_le_mono1)
    finally have "n < (acc + 1) * 10 * 10 ^ length (?f cs)" .
    moreover from True digit_val_Some(2) [OF v]
    have "length (?f (c # c' # cs)) = Suc (length (?f cs))" by simp
    ultimately show ?thesis by (simp add: algebra_simps)
  next
    case False
    with "3.prems" obtain v where v: "digit_val c = Some v"
      and r: "int_body (10 * acc + v) (c' # cs) = Some n"
      by (auto split: option.splits)
    from "3.IH"(2) [OF False v r]
    have "n < (10 * acc + v + 1) * 10 ^ length (?f (c' # cs))" .
    also from digit_val_Some(1) [OF v] have "10 * acc + v + 1 \<le> (acc + 1) * 10" by simp
    then have "(10 * acc + v + 1) * 10 ^ length (?f (c' # cs)) \<le>
        (acc + 1) * 10 * 10 ^ length (?f (c' # cs))"
      by (rule mult_le_mono1)
    finally have "n < (acc + 1) * 10 * 10 ^ length (?f (c' # cs))" .
    moreover from False
    have "length (?f (c # c' # cs)) = Suc (length (?f (c' # cs)))" by simp
    ultimately show ?thesis by (simp only: power_Suc)
  qed
qed

lemma int_digits_bound:
  assumes "int_digits body = Some n"
  shows "n < 10 ^ length (filter (\<lambda>c. c \<noteq> CHR ''_'') body)"
proof -
  let ?f = "filter (\<lambda>c. c \<noteq> CHR ''_'')"
  from assms obtain c cs v where b: "body = c # cs" and v: "digit_val c = Some v"
    and r: "int_body v cs = Some n"
    by (auto simp add: int_digits_def split: list.splits option.splits)
  from int_body_bound [OF r] have "n < (v + 1) * 10 ^ length (?f cs)" .
  also from digit_val_Some(1) [OF v] have "(v + 1) * 10 ^ length (?f cs) \<le> 10 * 10 ^ length (?f cs)"
    by (intro mult_le_mono1) simp
  finally show ?thesis using b digit_val_Some(2) [OF v] by simp
qed

lemma py_int_bound:
  assumes "py_int s = Inr n"
  shows "\<bar>n\<bar> < 10 ^ max_str_digits"
proof -
  define body where "body =
    (if strip s \<noteq> [] \<and> (hd (strip s) = CHR ''-'' \<or> hd (strip s) = CHR ''+'')
     then tl (strip s) else strip s)"
  from assms obtain m where m: "int_digits body = Some m"
    and len: "length (filter (\<lambda>c. c \<noteq> CHR ''_'') body) \<le> max_str_digits"
    and n: "\<bar>n\<bar> = int m"
    by (auto simp add: py_int_def Let_def body_def split: option.splits if_splits)
  from int_digits_bound [OF m] have "m < 10 ^ length (filter (\<lambda>c. c \<noteq> CHR ''_'') body)" .
  also from len have "(10::nat) ^ length (filter (\<lambda>c. c \<noteq> CHR ''_'') body) \<le> 10 ^ max_str_digits"
    by (intro power_increasing) simp_all
  finally have "int m < int (10 ^ max_str_digits)" by (simp only: of_nat_less_iff)
  with n show ?thesis by simp
qed

lemma py_int_digits:
  assumes "g \<noteq> []" and "length g \<le> max_str_digits" and "\<forall>c \<in> set g. is_digit c"
  shows "\<exists>n. py_int g = Inr n \<and> 0 \<le> n"
proof -
  from assms obtain c cs where g: "g = c # cs" by (cases g) auto
  with assms have c: "is_digit c" and cs: "\<forall>x \<in> set cs. is_digit x" by simp_all
  from c obtain v where v: "digit_val c = Some v" by (auto simp add: is_digit_def)
  from int_body_digits [OF cs] obtain n where n: "int_body v cs = Some n" by blast
  from c have ns: "c \<noteq> CHR ''-''" "c \<noteq> CHR ''+''" by (simp_all add: digit_not_special)
  from assms(3) have "\<forall>x \<in> set g. x \<noteq> CHR ''_''" using digit_not_special(4) by blast
  then have "filter (\<lambda>c. c \<noteq> CHR ''_'') g = g" by (simp add: filter_id_conv)
  with assms(2) have "\<not> max_str_digits < length (filter (\<lambda>c. c \<noteq> CHR ''_'') g)" by simp
  then have "py_int g = Inr (int n)"
    using strip_digits [OF assms(1,3)] g v n ns by (simp add: py_int_def int_digits_def)
  then show ?thesis by simp
qed

lemma split_dash_ne: "split_dash s \<noteq> []"
  by (subst split_dash.simps) (simp split: list.split)

lemma split_dash_no_dash: "g \<in> set (split_dash s) \<Longrightarrow> CHR ''-'' \<notin> set g"
proof (induction s arbitrary: g rule: split_dash.induct)
  case (1 s)
  show ?case
  proof (cases "dropWhile (\<lambda>c. c \<noteq> CHR ''-'') s")
    case Nil
    with "1.prems" have "g = takeWhile (\<lambda>c. c \<noteq> CHR ''-'') s"
      by (subst (asm) split_dash.simps) simp
    then show ?thesis by (auto dest: set_takeWhileD)
  next
    case (Cons c rest)
    with "1.prems" have "g = takeWhile (\<lambda>c. c \<noteq> CHR ''-'') s \<or> g \<in> set (split_dash rest)"
      by (subst (asm) split_dash.simps) simp
    then show ?thesis
    proof
      assume "g = takeWhile (\<lambda>c. c \<noteq> CHR ''-'') s"
      then show ?thesis by (auto dest: set_takeWhileD)
    next
      assume "g \<in> set (split_dash rest)"
      with "1.IH" [OF Cons] show ?thesis .
    qed
  qed
qed

lemma strip_subset: "set (strip s) \<subseteq> set s"
proof -
  have "set (dropWhile is_space (rev (dropWhile is_space s))) \<subseteq> set (dropWhile is_space s)"
    using set_dropWhileD [of _ is_space "rev (dropWhile is_space s)"] by auto
  also have "\<dots> \<subseteq> set s"
    using set_dropWhileD [of _ is_space s] by auto
  finally show ?thesis by (simp add: strip_def)
qed

lemma py_int_nonneg:
  assumes "CHR ''-'' \<notin> set g" and "py_int g = Inr n"
  shows "0 \<le> n"
proof -
  have "strip g \<noteq> [] \<Longrightarrow> hd (strip g) \<in> set g"
    using strip_subset [of g] hd_in_set [of "strip g"] by auto
  with assms(1) have "\<not> (strip g \<noteq> [] \<and> hd (strip g) = CHR ''-'')" by auto
  with assms(2) show ?thesis
    by (auto simp add: py_int_def Let_def split: option.splits if_splits)
qed

lemma py_index_in_set:
  assumes "py_index xs i = Inr x"
  shows "x \<in> set xs"
proof (cases "0 \<le> i \<and> i < int (length xs)")
  case True
  with assms have "x = xs ! nat i" by (simp add: py_index_def)
  moreover from True have "nat i < length xs" by linarith
  ultimately show ?thesis by simp
next
  case False
  with assms have r: "i < 0" "- int (length xs) \<le> i" "x = xs ! nat (int (length xs) + i)"
    by (simp_all add: py_index_def split: if_splits)
  then have "nat (int (length xs) + i) < length xs" by linarith
  with r(3) show ?thesis by simp
qed

lemma digit_val_digit_char:
  assumes "n < 10"
  shows "digit_val (digit_char n) = Some n"
proof -
  have "list_all (\<lambda>m. digit_val (digit_char m) = Some m) [0..<10]"
    by code_simp
  then have "\<forall>m \<in> set [0..<10]. digit_val (digit_char m) = Some m"
    by (simp only: list_all_iff)
  with assms show ?thesis by simp
qed

lemma str_nat_digits: "str_nat n \<noteq> [] \<and> (\<forall>c \<in> set (str_nat n). is_digit c)"
proof (induction n rule: str_nat.induct)
  case (1 n)
  show ?case
  proof (cases "n < 10")
    case True
    then show ?thesis
      by (subst (1 2) str_nat.simps) (simp add: is_digit_def digit_val_digit_char)
  next
    case False
    have "n mod 10 < 10" by simp
    then have "is_digit (digit_char (n mod 10))"
      by (simp add: is_digit_def digit_val_digit_char)
    with False "1.IH" show ?thesis
      by (subst (1 2) str_nat.simps) simp
  qed
qed

lemma int_body_snoc:
  assumes "\<forall>x \<in> set xs. is_digit x" and "digit_val c = Some v"
    and "int_body acc xs = Some m"
  shows "int_body acc (xs @ [c]) = Some (10 * m + v)"
  using assms
proof (induction acc xs rule: int_body.induct)
  case (1 acc)
  then show ?case by simp
next
  case (2 acc x)
  then have "is_digit x" by simp
  then have "x \<noteq> CHR ''_''" by (rule digit_not_special)
  with 2 show ?case by (auto split: option.splits)
next
  case (3 acc x x' xs)
  then have "is_digit x" by simp
  then have nu: "x \<noteq> CHR ''_''" by (rule digit_not_special)
  from \<open>is_digit x\<close> obtain w where w: "digit_val x = Some w"
    by (auto simp add: is_digit_def)
  from "3.prems" nu w have "int_body (10 * acc + w) (x' # xs) = Some m" by simp
  moreover from "3.prems" have "\<forall>y \<in> set (x' # xs). is_digit y" by simp
  ultimately have "int_body (10 * acc + w) ((x' # xs) @ [c]) = Some (10 * m + v)"
    using "3.IH"(2) [OF nu w] "3.prems"(2) by blast
  with nu w show ?case by simp
qed

lemma int_digits_snoc:
  assumes "\<forall>x \<in> set xs. is_digit x" and "digit_val c = Some v"
    and "int_digits xs = Some m"
  shows "int_digits (xs @ [c]) = Some (10 * m + v)"
proof (cases xs)
  case Nil
  with assms(3) show ?thesis by (simp add: int_digits_def)
next
  case (Cons y ys)
  with assms(3) obtain w where w: "digit_val y = Some w" "int_body w ys = Some m"
    by (auto simp add: int_digits_def split: option.splits)
  from assms(1) Cons have "\<forall>x \<in> set ys. is_digit x" by simp
  from int_body_snoc [OF this assms(2) w(2)] w(1) Cons show ?thesis
    by (simp add: int_digits_def)
qed

lemma int_digits_str_nat: "int_digits (str_nat n) = Some n"
proof (induction n rule: str_nat.induct)
  case (1 n)
  show ?case
  proof (cases "n < 10")
    case True
    then show ?thesis
      by (subst str_nat.simps) (simp add: int_digits_def digit_val_digit_char)
  next
    case False
    have "digit_val (digit_char (n mod 10)) = Some (n mod 10)"
      by (simp add: digit_val_digit_char)
    with False "1.IH" str_nat_digits [of "n div 10"]
    have "int_digits (str_nat (n div 10) @ [digit_char (n mod 10)]) =
        Some (10 * (n div 10) + n mod 10)"
      by (intro int_digits_snoc) simp_all
    with False show ?thesis by (subst str_nat.simps) simp
  qed
qed

text \<open>The number of digits of a natural number, and so when \<^verbatim>\<open>str\<close> raises.\<close>

lemma length_str_nat:
  "0 < m \<Longrightarrow> length (str_nat n) \<le> m \<longleftrightarrow> n < 10 ^ m"
proof (induction n arbitrary: m rule: str_nat.induct)
  case (1 n)
  show ?case
  proof (cases "n < 10")
    case True
    from "1.prems" have "(10::nat) ^ 1 \<le> 10 ^ m" by (intro power_increasing) simp_all
    with True have "n < 10 ^ m" by simp
    moreover from True have "length (str_nat n) = 1" by (subst str_nat.simps) simp
    ultimately show ?thesis using "1.prems" by simp
  next
    case False
    then have len: "length (str_nat n) = Suc (length (str_nat (n div 10)))"
      by (subst str_nat.simps) simp
    from "1.prems" obtain m' where m: "m = Suc m'" by (cases m) auto
    show ?thesis
    proof (cases "m' = 0")
      case True
      from str_nat_digits [of "n div 10"] have "0 < length (str_nat (n div 10))" by simp
      with len m True False show ?thesis by simp
    next
      case m': False
      then have "0 < m'" by simp
      from "1.IH" [OF False this]
      have "length (str_nat (n div 10)) \<le> m' \<longleftrightarrow> n div 10 < 10 ^ m'" .
      also have "\<dots> \<longleftrightarrow> n < 10 ^ m' * 10" by (simp add: div_less_iff_less_mult)
      finally show ?thesis using len m by (simp add: mult.commute)
    qed
  qed
qed

lemma py_str_eq:
  "py_str i = (if \<bar>i\<bar> < 10 ^ max_str_digits then Inr (str_int i) else Inl ValueError)"
proof -
  have "0 < max_str_digits" by (simp add: max_str_digits_def)
  then have "length (str_nat (nat \<bar>i\<bar>)) \<le> max_str_digits \<longleftrightarrow> nat \<bar>i\<bar> < 10 ^ max_str_digits"
    by (rule length_str_nat)
  also have "\<dots> \<longleftrightarrow> \<bar>i\<bar> < int (10 ^ max_str_digits)" by (simp add: nat_less_iff)
  finally have "length (str_nat (nat \<bar>i\<bar>)) \<le> max_str_digits \<longleftrightarrow> \<bar>i\<bar> < 10 ^ max_str_digits"
    by simp
  then show ?thesis by (auto simp add: py_str_def)
qed

lemma lat_str_eq:
  "lat_str k n =
     (if \<bar>k\<bar> < 10 ^ max_str_digits \<and> \<bar>n\<bar> < 10 ^ max_str_digits then Inr (slot_text k n)
      else Inl ValueError)"
  by (simp add: lat_str_def py_str_eq bind_err_def slot_text_def)

text \<open>\<^verbatim>\<open>int(str(k)) == k\<close>, so a lateral slot determines its two numbers.\<close>

lemma py_int_py_str:
  assumes "py_str k = Inr s"
  shows "py_int s = Inr k"
proof -
  let ?ds = "str_nat (nat \<bar>k\<bar>)"
  from assms have s: "s = str_int k" and len: "length ?ds \<le> max_str_digits"
    by (auto simp add: py_str_def split: if_splits)
  from str_nat_digits [of "nat \<bar>k\<bar>"] have ne: "?ds \<noteq> []"
    and dg: "\<forall>c \<in> set ?ds. is_digit c" by simp_all
  from dg have "\<forall>x \<in> set ?ds. x \<noteq> CHR ''_''" using digit_not_special(4) by blast
  then have "filter (\<lambda>c. c \<noteq> CHR ''_'') ?ds = ?ds" by (simp add: filter_id_conv)
  with len have lim: "\<not> max_str_digits < length (filter (\<lambda>c. c \<noteq> CHR ''_'') ?ds)" by simp
  show ?thesis
  proof (cases "k < 0")
    case False
    then have k: "nat \<bar>k\<bar> = nat k" by simp
    from ne dg have "strip ?ds = ?ds" by (simp add: strip_digits)
    moreover from ne dg have "is_digit (hd ?ds)" by simp
    then have "hd ?ds \<noteq> CHR ''-''" "hd ?ds \<noteq> CHR ''+''"
      by (simp_all add: digit_not_special)
    ultimately show ?thesis
      using False ne lim s k by (simp add: py_int_def str_int_def int_digits_str_nat)
  next
    case True
    then have k: "nat \<bar>k\<bar> = nat (- k)" by simp
    have "\<not> is_space (CHR ''-'')" by (simp add: is_space_def)
    then have a: "dropWhile is_space (CHR ''-'' # ?ds) = CHR ''-'' # ?ds" by simp
    from ne dg have "\<not> is_space (last ?ds)" by (simp add: digit_not_special)
    with ne have "dropWhile is_space (rev ?ds @ [CHR ''-'']) = rev ?ds @ [CHR ''-'']"
      by (cases "rev ?ds") (simp_all add: hd_rev [symmetric] del: hd_rev)
    with a have "strip (CHR ''-'' # ?ds) = CHR ''-'' # ?ds" by (simp add: strip_def)
    with True lim s k show ?thesis
      by (simp add: py_int_def str_int_def int_digits_str_nat)
  qed
qed

lemma str_int_inject:
  assumes "str_int k = str_int k'"
  shows "k = k'"
proof -
  have dash: "hd (str_nat n) \<noteq> CHR ''-''" for n
    using str_nat_digits [of n] digit_not_special(2) [of "hd (str_nat n)"] by auto
  have nat_eq: "n = n'" if e: "str_nat n = str_nat n'" for n n'
  proof -
    have "Some n = int_digits (str_nat n)" by (simp add: int_digits_str_nat)
    also have "\<dots> = int_digits (str_nat n')" by (simp only: e)
    also have "\<dots> = Some n'" by (simp add: int_digits_str_nat)
    finally show ?thesis by simp
  qed
  have sign: "i < 0 \<longleftrightarrow> hd (str_int i) = CHR ''-''" for i
    using dash [of "nat i"] by (simp add: str_int_def)
  from assms sign [of k] sign [of k'] have same: "k < 0 \<longleftrightarrow> k' < 0" by simp
  show ?thesis
  proof (cases "k < 0")
    case True
    with same have k': "k' < 0" by simp
    with True assms have "str_nat (nat (- k)) = str_nat (nat (- k'))"
      by (simp add: str_int_def)
    then have "nat (- k) = nat (- k')" by (rule nat_eq)
    with True k' show ?thesis by simp
  next
    case False
    with same have k': "\<not> k' < 0" by simp
    with False assms have "str_nat (nat k) = str_nat (nat k')"
      by (simp add: str_int_def)
    then have "nat k = nat k'" by (rule nat_eq)
    with False k' show ?thesis by simp
  qed
qed

lemma str_int_no_slash: "CHR ''/'' \<notin> set (str_int k)"
proof -
  have "\<not> is_digit (CHR ''/'')" by (simp add: is_digit_def digit_val_def)
  then have "CHR ''/'' \<notin> set (str_nat n)" for n
    using str_nat_digits [of n] by blast
  then show ?thesis by (simp add: str_int_def)
qed

lemma slot_text_inject:
  assumes "slot_text k n = slot_text k' n'"
  shows "k = k' \<and> n = n'"
proof -
  let ?P = "\<lambda>c. c \<noteq> CHR ''/''"
  have tw: "takeWhile ?P (str_int i @ CHR ''/'' # str_int j) = str_int i" for i j
  proof -
    have "x \<in> set (str_int i) \<Longrightarrow> x \<noteq> CHR ''/''" for x
      using str_int_no_slash [of i] by blast
    then have "takeWhile ?P (str_int i @ CHR ''/'' # str_int j) =
        str_int i @ takeWhile ?P (CHR ''/'' # str_int j)"
      by (rule takeWhile_append2)
    then show ?thesis by simp
  qed
  from assms have e: "str_int k @ CHR ''/'' # str_int n = str_int k' @ CHR ''/'' # str_int n'"
    by (simp add: slot_text_def)
  then have "takeWhile ?P (str_int k @ CHR ''/'' # str_int n) =
      takeWhile ?P (str_int k' @ CHR ''/'' # str_int n')" by simp
  then have k: "str_int k = str_int k'" by (simp only: tw)
  with e have "str_int n = str_int n'" by simp
  with k show ?thesis by (simp add: str_int_inject)
qed

lemma lat_str_inject:
  assumes "lat_str k n = Inr s" and "lat_str k' n' = Inr s"
  shows "k = k' \<and> n = n'"
proof -
  from assms have "s = slot_text k n" "s = slot_text k' n'"
    by (auto simp add: lat_str_eq split: if_splits)
  then have "slot_text k n = slot_text k' n'" by simp
  then show ?thesis by (rule slot_text_inject)
qed

section \<open>Properties of determine\_position\<close>

subsection \<open>The branches\<close>

lemma limit_pos: "0 < max_str_digits"
  by (simp add: max_str_digits_def)

lemma ten_le_limit: "(10::int) \<le> 10 ^ max_str_digits"
  using limit_pos self_le_power [of "10::int" max_str_digits] by simp

lemma lat_str_small:
  assumes "1 \<le> k" "k \<le> n" "n < 10 ^ max_str_digits"
  shows "lat_str k n = Inr (slot_text k n)"
  using assms by (simp add: lat_str_eq)

lemma lat_str_error: "lat_str k n = Inl e \<Longrightarrow> e = ValueError"
  by (simp add: lat_str_eq split: if_splits)

text \<open>
  Which branch an order takes, for all integers: the keeper, a group whose slot
  \<open>k/n\<close> is then formatted, or none of them.
\<close>

lemma determine_position_cases:
  obtains (keeper) "order = 1"
      "determine_position order d m0 m1 m2 a sub = Inr (Some ''por'', Some ''1/1'', Some ''POR'')"
  | (group) l p k n where
      "determine_position order d m0 m1 m2 a sub =
         bind_err (lat_str k n) (\<lambda>lat. Inr (Some l, Some lat, Some p))"
      "k \<le> n" "1 \<le> order \<Longrightarrow> 1 \<le> k" "n = group_size l d m0 m1 m2 a"
      "order \<le> 1 + d \<or> order \<le> 1 + d + m0 \<or> order \<le> 1 + d + m0 + m1 \<or>
       order \<le> 1 + d + m0 + m1 + m2 \<or> order \<le> 1 + d + m0 + m1 + m2 + a"
  | (bench) "order \<noteq> 1" "1 + d < order" "1 + d + m0 < order" "1 + d + m0 + m1 < order"
      "1 + d + m0 + m1 + m2 < order" "1 + d + m0 + m1 + m2 + a < order"
      "determine_position order d m0 m1 m2 a sub =
         Inr (None, None,
              if 11 < order \<and> sub then Some ''SUS''
              else if 11 < order \<and> \<not> sub then Some ''RES'' else None)"
proof (cases "order = 1")
  case True
  then show ?thesis by (intro keeper) (simp_all add: determine_position_def)
next
  case b0: False
  show ?thesis
  proof (cases "order \<le> 1 + d")
    case True
    from b0 True have "determine_position order d m0 m1 m2 a sub =
        bind_err (lat_str (order - 1) d) (\<lambda>lat. Inr (Some ''def'', Some lat, Some ''DEF''))"
      by (simp add: determine_position_def)
    moreover from True have "order - 1 \<le> d" by simp
    moreover from b0 have "1 \<le> order \<Longrightarrow> 1 \<le> order - 1" by simp
    moreover have "d = group_size ''def'' d m0 m1 m2 a" by (simp add: group_size_def)
    moreover from True have "order \<le> 1 + d \<or> order \<le> 1 + d + m0 \<or>
        order \<le> 1 + d + m0 + m1 \<or> order \<le> 1 + d + m0 + m1 + m2 \<or>
        order \<le> 1 + d + m0 + m1 + m2 + a" by simp
    ultimately show ?thesis by (rule group)
  next
    case b1: False
    show ?thesis
    proof (cases "order \<le> 1 + d + m0")
      case True
      from b0 b1 True have "determine_position order d m0 m1 m2 a sub =
          bind_err (lat_str (order - 1 - d) m0)
            (\<lambda>lat. Inr (Some ''mid_0'', Some lat, Some ''MED''))"
        by (simp add: determine_position_def)
      moreover from True have "order - 1 - d \<le> m0" by simp
      moreover from b1 have "1 \<le> order \<Longrightarrow> 1 \<le> order - 1 - d" by simp
      moreover have "m0 = group_size ''mid_0'' d m0 m1 m2 a" by (simp add: group_size_def)
      moreover from True have "order \<le> 1 + d \<or> order \<le> 1 + d + m0 \<or>
          order \<le> 1 + d + m0 + m1 \<or> order \<le> 1 + d + m0 + m1 + m2 \<or>
          order \<le> 1 + d + m0 + m1 + m2 + a" by simp
      ultimately show ?thesis by (rule group)
    next
      case b2: False
      show ?thesis
      proof (cases "order \<le> 1 + d + m0 + m1")
        case True
        from b0 b1 b2 True have "determine_position order d m0 m1 m2 a sub =
            bind_err (lat_str (order - 1 - d - m0) m1)
              (\<lambda>lat. Inr (Some ''mid_1'', Some lat, Some ''MED''))"
          by (simp add: determine_position_def)
        moreover from True have "order - 1 - d - m0 \<le> m1" by simp
        moreover from b2 have "1 \<le> order \<Longrightarrow> 1 \<le> order - 1 - d - m0" by simp
        moreover have "m1 = group_size ''mid_1'' d m0 m1 m2 a" by (simp add: group_size_def)
        moreover from True have "order \<le> 1 + d \<or> order \<le> 1 + d + m0 \<or>
            order \<le> 1 + d + m0 + m1 \<or> order \<le> 1 + d + m0 + m1 + m2 \<or>
            order \<le> 1 + d + m0 + m1 + m2 + a" by simp
        ultimately show ?thesis by (rule group)
      next
        case b3: False
        show ?thesis
        proof (cases "order \<le> 1 + d + m0 + m1 + m2")
          case True
          from b0 b1 b2 b3 True have "determine_position order d m0 m1 m2 a sub =
              bind_err (lat_str (order - 1 - d - m0 - m1) m2)
                (\<lambda>lat. Inr (Some ''mid_2'', Some lat, Some ''MED''))"
            by (simp add: determine_position_def)
          moreover from True have "order - 1 - d - m0 - m1 \<le> m2" by simp
          moreover from b3 have "1 \<le> order \<Longrightarrow> 1 \<le> order - 1 - d - m0 - m1" by simp
          moreover have "m2 = group_size ''mid_2'' d m0 m1 m2 a" by (simp add: group_size_def)
          moreover from True have "order \<le> 1 + d \<or> order \<le> 1 + d + m0 \<or>
              order \<le> 1 + d + m0 + m1 \<or> order \<le> 1 + d + m0 + m1 + m2 \<or>
              order \<le> 1 + d + m0 + m1 + m2 + a" by simp
          ultimately show ?thesis by (rule group)
        next
          case b4: False
          show ?thesis
          proof (cases "order \<le> 1 + d + m0 + m1 + m2 + a")
            case True
            from b0 b1 b2 b3 b4 True have "determine_position order d m0 m1 m2 a sub =
                bind_err (lat_str (order - 1 - d - m0 - m1 - m2) a)
                  (\<lambda>lat. Inr (Some ''ata'', Some lat, Some ''ATA''))"
              by (simp add: determine_position_def)
            moreover from True have "order - 1 - d - m0 - m1 - m2 \<le> a" by simp
            moreover from b4 have "1 \<le> order \<Longrightarrow> 1 \<le> order - 1 - d - m0 - m1 - m2"
              by simp
            moreover have "a = group_size ''ata'' d m0 m1 m2 a" by (simp add: group_size_def)
            moreover from True have "order \<le> 1 + d \<or> order \<le> 1 + d + m0 \<or>
                order \<le> 1 + d + m0 + m1 \<or> order \<le> 1 + d + m0 + m1 + m2 \<or>
                order \<le> 1 + d + m0 + m1 + m2 + a" by simp
            ultimately show ?thesis by (rule group)
          next
            case b5: False
            from b0 b1 b2 b3 b4 b5 have "determine_position order d m0 m1 m2 a sub =
                Inr (None, None,
                     if 11 < order \<and> sub then Some ''SUS''
                     else if 11 < order \<and> \<not> sub then Some ''RES'' else None)"
              by (simp add: determine_position_def)
            with b0 b1 b2 b3 b4 b5 show ?thesis by (intro bench) simp_all
          qed
        qed
      qed
    qed
  qed
qed

text \<open>With every count below the digit limit no order from 1 on raises.\<close>

lemma determine_position_returns:
  assumes "1 \<le> order" and "d < 10 ^ max_str_digits" "m0 < 10 ^ max_str_digits"
    "m1 < 10 ^ max_str_digits" "m2 < 10 ^ max_str_digits" "a < 10 ^ max_str_digits"
  shows "\<exists>line lat pos. determine_position order d m0 m1 m2 a sub = Inr (line, lat, pos) \<and>
           (line = None \<longleftrightarrow> lat = None)"
proof (cases rule: determine_position_cases [of order d m0 m1 m2 a sub])
  case keeper
  then show ?thesis by simp
next
  case (group l p k n)
  from group(2,3) assms(1) have kn: "1 \<le> k" "k \<le> n" by simp_all
  then have "1 \<le> group_size l d m0 m1 m2 a" using group(4) by simp
  then have "n < 10 ^ max_str_digits"
    using group(4) assms(2-) ten_le_limit by (auto simp add: group_size_def split: if_splits)
  with kn have "lat_str k n = Inr (slot_text k n)" by (simp add: lat_str_small)
  with group(1) show ?thesis by (simp add: bind_err_def)
next
  case bench
  then show ?thesis by simp
qed

lemma determine_position_error:
  assumes "determine_position order d m0 m1 m2 a sub = Inl e"
  shows "e = ValueError"
proof (cases rule: determine_position_cases [of order d m0 m1 m2 a sub])
  case keeper
  with assms show ?thesis by simp
next
  case (group l p k n)
  with assms obtain e' where "lat_str k n = Inl e'" "e = e'"
    by (auto simp add: bind_err_def split: sum.splits)
  then show ?thesis using lat_str_error by blast
next
  case bench
  with assms show ?thesis by simp
qed

text \<open>
  C3. Order 1 is the goalkeeper whatever the formation counts and the substitute flag are:
  the result is line \<^verbatim>\<open>'por'\<close>, lateral slot \<^verbatim>\<open>'1/1'\<close> and position code \<^verbatim>\<open>'POR'\<close>.
\<close>

theorem goalkeeper_at_order_one:
  "determine_position 1 d m0 m1 m2 a sub = Inr (Some ''por'', Some ''1/1'', Some ''POR'')"
  by (simp add: determine_position_def)

text \<open>
  C2. When the counts are sizes (none negative) that add up to 10, every order above 11 is
  past the last group: the result has no line and no lateral slot, with code \<^verbatim>\<open>'SUS'\<close> for
  a substitute and \<^verbatim>\<open>'RES'\<close> otherwise.
\<close>

theorem bench_orders:
  assumes "0 \<le> d" "0 \<le> m0" "0 \<le> m1" "0 \<le> m2" "0 \<le> a"
    and "d + m0 + m1 + m2 + a = 10" and "11 < order"
  shows "determine_position order d m0 m1 m2 a True = Inr (None, None, Some ''SUS'') \<and>
         determine_position order d m0 m1 m2 a False = Inr (None, None, Some ''RES'')"
  using assms by (simp add: determine_position_def)

theorem bench_orders_witness:
  "determine_position 12 4 2 0 3 1 True = Inr (None, None, Some ''SUS'') \<and>
   determine_position 12 4 2 0 3 1 False = Inr (None, None, Some ''RES'')"
  using bench_orders [of 4 2 0 3 1 12] by simp

text \<open>
  C5, as stated, fails: a count of 4301 digits is an integer count, and at order 2 the
  defense branch formats it, which raises \<^verbatim>\<open>ValueError\<close>.
\<close>

theorem determine_position_raises_past_digit_limit:
  "determine_position 2 (10 ^ max_str_digits) 0 0 0 0 False = Inl ValueError"
proof -
  from ten_le_limit have "(2::int) \<le> 1 + 10 ^ max_str_digits" by simp
  moreover have "lat_str (2 - 1) (10 ^ max_str_digits) = Inl ValueError"
    by (simp add: lat_str_eq)
  ultimately show ?thesis by (simp add: determine_position_def bind_err_def)
qed

text \<open>
  C5, amended. For every order from 1 on, both flags and all integer counts below
  \<open>10 ^ 4300\<close> (of any sign; the interpreter's limit on formatting an integer),
  \<open>determine_position\<close> returns a triple and never raises, with a line exactly when a
  lateral slot. Over all integer counts the only exception is the \<^verbatim>\<open>ValueError\<close> of the
  slot formatting, and the triple is the all-null one exactly when the order is past the
  keeper and past every cumulative group boundary but not above 11.
\<close>

theorem determine_position_fallback:
  assumes "1 \<le> order"
  shows "(d < 10 ^ max_str_digits \<and> m0 < 10 ^ max_str_digits \<and> m1 < 10 ^ max_str_digits \<and>
          m2 < 10 ^ max_str_digits \<and> a < 10 ^ max_str_digits \<longrightarrow>
            (\<exists>line lat pos. determine_position order d m0 m1 m2 a sub = Inr (line, lat, pos) \<and>
               (line = None \<longleftrightarrow> lat = None))) \<and>
     (\<forall>e. determine_position order d m0 m1 m2 a sub = Inl e \<longrightarrow> e = ValueError) \<and>
     (determine_position order d m0 m1 m2 a sub = Inr (None, None, None) \<longleftrightarrow>
       1 < order \<and> 1 + d < order \<and> 1 + d + m0 < order \<and> 1 + d + m0 + m1 < order \<and>
       1 + d + m0 + m1 + m2 < order \<and> 1 + d + m0 + m1 + m2 + a < order \<and> order \<le> 11)"
proof (intro conjI impI allI)
  assume "d < 10 ^ max_str_digits \<and> m0 < 10 ^ max_str_digits \<and> m1 < 10 ^ max_str_digits \<and>
          m2 < 10 ^ max_str_digits \<and> a < 10 ^ max_str_digits"
  with assms show "\<exists>line lat pos.
      determine_position order d m0 m1 m2 a sub = Inr (line, lat, pos) \<and>
      (line = None \<longleftrightarrow> lat = None)"
    by (intro determine_position_returns) simp_all
next
  fix e assume "determine_position order d m0 m1 m2 a sub = Inl e"
  then show "e = ValueError" by (rule determine_position_error)
next
  show "determine_position order d m0 m1 m2 a sub = Inr (None, None, None) \<longleftrightarrow>
       1 < order \<and> 1 + d < order \<and> 1 + d + m0 < order \<and> 1 + d + m0 + m1 < order \<and>
       1 + d + m0 + m1 + m2 < order \<and> 1 + d + m0 + m1 + m2 + a < order \<and> order \<le> 11"
  proof (cases rule: determine_position_cases [of order d m0 m1 m2 a sub])
    case keeper
    then show ?thesis by simp
  next
    case (group l p k n)
    from group(1) have "determine_position order d m0 m1 m2 a sub \<noteq> Inr (None, None, None)"
      by (simp add: bind_err_def split: sum.splits)
    with group(5) show ?thesis by auto
  next
    case bench
    with assms show ?thesis by auto
  qed
qed

theorem determine_position_fallback_witness:
  "(\<exists>line lat pos. determine_position 7 4 2 0 3 1 True = Inr (line, lat, pos) \<and>
      (line = None \<longleftrightarrow> lat = None)) \<and>
   determine_position 9 3 0 2 0 1 True = Inr (None, None, None) \<and>
   determine_position 9 (- 3) 0 2 0 1 False = Inr (None, None, None)"
proof -
  have small: "(4::int) < 10 ^ max_str_digits \<and> (2::int) < 10 ^ max_str_digits \<and>
      (0::int) < 10 ^ max_str_digits \<and> (3::int) < 10 ^ max_str_digits \<and>
      (1::int) < 10 ^ max_str_digits"
    using ten_le_limit by simp
  have o: "(1::int) \<le> 7" "(1::int) \<le> 9" by simp_all
  from determine_position_fallback [OF o(1), of 4 2 0 3 1 True] small
  have "\<exists>line lat pos. determine_position 7 4 2 0 3 1 True = Inr (line, lat, pos) \<and>
      (line = None \<longleftrightarrow> lat = None)" by blast
  moreover from determine_position_fallback [OF o(2), of 3 0 2 0 1 True]
  have "determine_position 9 3 0 2 0 1 True = Inr (None, None, None)" by simp
  moreover from determine_position_fallback [OF o(2), of "- 3" 0 2 0 1 False]
  have "determine_position 9 (- 3) 0 2 0 1 False = Inr (None, None, None)" by simp
  ultimately show ?thesis by blast
qed

text \<open>
  C10. An order up to the last group boundary \<open>1 + def + mid_0 + mid_1 + mid_2 + ata\<close>
  gets the same result with the substitute flag set and unset, a triple of that result
  carries a line, and it is a triple when the order is at least 1 and the counts are below
  the digit limit: the flag is read only past the last boundary.
\<close>

theorem substitute_flag_unread_inside_groups:
  assumes "order \<le> 1 + d + m0 + m1 + m2 + a"
  shows "determine_position order d m0 m1 m2 a True = determine_position order d m0 m1 m2 a False
     \<and> (\<forall>t. determine_position order d m0 m1 m2 a True = Inr t \<longrightarrow> fst t \<noteq> None)
     \<and> (1 \<le> order \<and> d < 10 ^ max_str_digits \<and> m0 < 10 ^ max_str_digits \<and>
        m1 < 10 ^ max_str_digits \<and> m2 < 10 ^ max_str_digits \<and> a < 10 ^ max_str_digits \<longrightarrow>
          (\<exists>t. determine_position order d m0 m1 m2 a True = Inr t))"
proof (intro conjI allI impI)
  from assms show "determine_position order d m0 m1 m2 a True =
      determine_position order d m0 m1 m2 a False"
    by (simp add: determine_position_def)
next
  fix t assume t: "determine_position order d m0 m1 m2 a True = Inr t"
  show "fst t \<noteq> None"
  proof (cases rule: determine_position_cases [of order d m0 m1 m2 a True])
    case keeper
    with t show ?thesis by auto
  next
    case (group l p k n)
    with t show ?thesis by (auto simp add: bind_err_def split: sum.splits)
  next
    case bench
    with assms show ?thesis by simp
  qed
next
  assume "1 \<le> order \<and> d < 10 ^ max_str_digits \<and> m0 < 10 ^ max_str_digits \<and>
        m1 < 10 ^ max_str_digits \<and> m2 < 10 ^ max_str_digits \<and> a < 10 ^ max_str_digits"
  then have "\<exists>line lat pos. determine_position order d m0 m1 m2 a True = Inr (line, lat, pos) \<and>
      (line = None \<longleftrightarrow> lat = None)"
    by (intro determine_position_returns) simp_all
  then show "\<exists>t. determine_position order d m0 m1 m2 a True = Inr t" by blast
qed

theorem substitute_flag_unread_inside_groups_witness:
  "determine_position 7 4 2 0 3 1 True = determine_position 7 4 2 0 3 1 False \<and>
   (\<exists>t. determine_position 7 4 2 0 3 1 True = Inr t \<and> fst t \<noteq> None)"
proof -
  have h: "(7::int) \<le> 1 + 4 + 2 + 0 + 3 + 1" by simp
  have small: "(1::int) \<le> 7 \<and> (4::int) < 10 ^ max_str_digits \<and> (2::int) < 10 ^ max_str_digits \<and>
      (0::int) < 10 ^ max_str_digits \<and> (3::int) < 10 ^ max_str_digits \<and>
      (1::int) < 10 ^ max_str_digits"
    using ten_le_limit by simp
  from substitute_flag_unread_inside_groups [OF h] small show ?thesis by blast
qed

subsection \<open>Lateral slots\<close>

lemma lat_str_1_1: "lat_str 1 1 = Inr ''1/1''"
proof -
  from ten_le_limit have "(1::int) < 10 ^ max_str_digits" by simp
  then have "lat_str 1 1 = Inr (slot_text 1 1)" by (simp add: lat_str_small)
  then show ?thesis
    by (simp add: slot_text_def str_int_def str_nat.simps digit_char_def)
qed

lemma slot_okI:
  "1 \<le> k \<Longrightarrow> k \<le> n \<Longrightarrow> n = group_size l d m0 m1 m2 a \<Longrightarrow> lat_str k n = Inr s \<Longrightarrow>
     slot_ok d m0 m1 m2 a (Some l) s"
  unfolding slot_ok_def by blast

lemma slot_shape:
  assumes o: "1 \<le> order"
    and r: "determine_position order d m0 m1 m2 a sub = Inr (line, Some s, pos)"
  shows "slot_ok d m0 m1 m2 a line s"
proof (cases rule: determine_position_cases [of order d m0 m1 m2 a sub])
  case keeper
  with r have "line = Some ''por''" "s = ''1/1''" by simp_all
  moreover have "slot_ok d m0 m1 m2 a (Some ''por'') ''1/1''"
    by (rule slot_okI [of 1 1]) (simp_all add: group_size_def lat_str_1_1)
  ultimately show ?thesis by simp
next
  case (group l p k n)
  from group(1) r have "lat_str k n = Inr s" "line = Some l"
    by (auto simp add: bind_err_def split: sum.splits)
  moreover from group(3) o have "1 \<le> k" by simp
  ultimately show ?thesis using group(2,4) by (simp add: slot_okI)
next
  case bench
  with r show ?thesis by simp
qed

text \<open>The group branches for counts that are sizes below the digit limit.\<close>

lemma group_branches:
  assumes "0 \<le> d" "0 \<le> m0" "0 \<le> m1" "0 \<le> m2" "0 \<le> a" "1 < order"
    and "d < 10 ^ max_str_digits" "m0 < 10 ^ max_str_digits" "m1 < 10 ^ max_str_digits"
      "m2 < 10 ^ max_str_digits" "a < 10 ^ max_str_digits"
  shows "order \<le> 1 + d \<Longrightarrow> determine_position order d m0 m1 m2 a sub =
           Inr (Some ''def'', Some (slot_text (order - 1) d), Some ''DEF'')"
    and "1 + d < order \<Longrightarrow> order \<le> 1 + d + m0 \<Longrightarrow>
         determine_position order d m0 m1 m2 a sub =
           Inr (Some ''mid_0'', Some (slot_text (order - (1 + d)) m0), Some ''MED'')"
    and "1 + d + m0 < order \<Longrightarrow> order \<le> 1 + d + m0 + m1 \<Longrightarrow>
         determine_position order d m0 m1 m2 a sub =
           Inr (Some ''mid_1'', Some (slot_text (order - (1 + d + m0)) m1), Some ''MED'')"
    and "1 + d + m0 + m1 < order \<Longrightarrow> order \<le> 1 + d + m0 + m1 + m2 \<Longrightarrow>
         determine_position order d m0 m1 m2 a sub =
           Inr (Some ''mid_2'', Some (slot_text (order - (1 + d + m0 + m1)) m2), Some ''MED'')"
    and "1 + d + m0 + m1 + m2 < order \<Longrightarrow> order \<le> 1 + d + m0 + m1 + m2 + a \<Longrightarrow>
         determine_position order d m0 m1 m2 a sub =
           Inr (Some ''ata'', Some (slot_text (order - (1 + d + m0 + m1 + m2)) a), Some ''ATA'')"
proof -
  show "determine_position order d m0 m1 m2 a sub =
      Inr (Some ''def'', Some (slot_text (order - 1) d), Some ''DEF'')" if "order \<le> 1 + d"
  proof -
    from that assms have "lat_str (order - 1) d = Inr (slot_text (order - 1) d)"
      by (intro lat_str_small) simp_all
    with that assms show ?thesis by (simp add: determine_position_def bind_err_def)
  qed
  show "determine_position order d m0 m1 m2 a sub =
      Inr (Some ''mid_0'', Some (slot_text (order - (1 + d)) m0), Some ''MED'')"
    if "1 + d < order" "order \<le> 1 + d + m0"
  proof -
    from that assms have ls: "lat_str (order - 1 - d) m0 = Inr (slot_text (order - 1 - d) m0)"
      by (intro lat_str_small) simp_all
    have e: "order - (1 + d) = order - 1 - d" by simp
    from ls that assms show ?thesis
      unfolding e by (simp add: determine_position_def bind_err_def)
  qed
  show "determine_position order d m0 m1 m2 a sub =
      Inr (Some ''mid_1'', Some (slot_text (order - (1 + d + m0)) m1), Some ''MED'')"
    if "1 + d + m0 < order" "order \<le> 1 + d + m0 + m1"
  proof -
    from that assms
    have ls: "lat_str (order - 1 - d - m0) m1 = Inr (slot_text (order - 1 - d - m0) m1)"
      by (intro lat_str_small) simp_all
    have e: "order - (1 + d + m0) = order - 1 - d - m0" by simp
    from ls that assms show ?thesis
      unfolding e by (simp add: determine_position_def bind_err_def)
  qed
  show "determine_position order d m0 m1 m2 a sub =
      Inr (Some ''mid_2'', Some (slot_text (order - (1 + d + m0 + m1)) m2), Some ''MED'')"
    if "1 + d + m0 + m1 < order" "order \<le> 1 + d + m0 + m1 + m2"
  proof -
    from that assms
    have ls: "lat_str (order - 1 - d - m0 - m1) m2 = Inr (slot_text (order - 1 - d - m0 - m1) m2)"
      by (intro lat_str_small) simp_all
    have e: "order - (1 + d + m0 + m1) = order - 1 - d - m0 - m1" by simp
    from ls that assms show ?thesis
      unfolding e by (simp add: determine_position_def bind_err_def)
  qed
  show "determine_position order d m0 m1 m2 a sub =
      Inr (Some ''ata'', Some (slot_text (order - (1 + d + m0 + m1 + m2)) a), Some ''ATA'')"
    if "1 + d + m0 + m1 + m2 < order" "order \<le> 1 + d + m0 + m1 + m2 + a"
  proof -
    from that assms
    have ls: "lat_str (order - 1 - d - m0 - m1 - m2) a =
        Inr (slot_text (order - 1 - d - m0 - m1 - m2) a)"
      by (intro lat_str_small) simp_all
    have e: "order - (1 + d + m0 + m1 + m2) = order - 1 - d - m0 - m1 - m2" by simp
    from ls that assms show ?thesis
      unfolding e by (simp add: determine_position_def bind_err_def)
  qed
qed

lemma count_interval:
  assumes "0 \<le> lo" "hi \<le> n" "lo \<le> hi"
    and "\<And>j. 1 \<le> j \<Longrightarrow> j \<le> n \<Longrightarrow> P j \<longleftrightarrow> lo < j \<and> j \<le> hi"
  shows "int (length (filter P [1..n])) = hi - lo"
proof -
  have "{j. P j} \<inter> set [1..n] = {lo + 1..hi}"
    using assms by auto
  moreover have "length (filter P [1..n]) = card ({j. P j} \<inter> set [1..n])"
    by (rule distinct_length_filter) simp
  ultimately show ?thesis using assms(3) by simp
qed

text \<open>The line of every order from 1 on, for such counts.\<close>

lemma line_of_order:
  assumes nn: "0 \<le> d" "0 \<le> m0" "0 \<le> m1" "0 \<le> m2" "0 \<le> a" and j: "1 \<le> j"
    and lim: "d < 10 ^ max_str_digits" "m0 < 10 ^ max_str_digits" "m1 < 10 ^ max_str_digits"
      "m2 < 10 ^ max_str_digits" "a < 10 ^ max_str_digits"
  shows "line_of (determine_position j d m0 m1 m2 a sub) =
     (if j = 1 then Some ''por''
      else if j \<le> 1 + d then Some ''def''
      else if j \<le> 1 + d + m0 then Some ''mid_0''
      else if j \<le> 1 + d + m0 + m1 then Some ''mid_1''
      else if j \<le> 1 + d + m0 + m1 + m2 then Some ''mid_2''
      else if j \<le> 1 + d + m0 + m1 + m2 + a then Some ''ata''
      else None)"
proof (cases "j = 1")
  case True
  then show ?thesis by (simp add: determine_position_def line_of_def)
next
  case False
  with j have j1: "1 < j" by simp
  note gb = group_branches [OF nn j1 lim, of sub]
  consider (def) "j \<le> 1 + d"
    | (mid0) "1 + d < j" "j \<le> 1 + d + m0"
    | (mid1) "1 + d + m0 < j" "j \<le> 1 + d + m0 + m1"
    | (mid2) "1 + d + m0 + m1 < j" "j \<le> 1 + d + m0 + m1 + m2"
    | (ata) "1 + d + m0 + m1 + m2 < j" "j \<le> 1 + d + m0 + m1 + m2 + a"
    | (none) "1 + d + m0 + m1 + m2 + a < j"
    by linarith
  then show ?thesis
  proof cases
    case def
    with gb(1) False show ?thesis by (simp add: line_of_def)
  next
    case mid0
    with gb(2) False nn show ?thesis by (simp add: line_of_def)
  next
    case mid1
    with gb(3) False nn show ?thesis by (simp add: line_of_def)
  next
    case mid2
    with gb(4) False nn show ?thesis by (simp add: line_of_def)
  next
    case ata
    with gb(5) False nn show ?thesis by (simp add: line_of_def)
  next
    case none
    with False nn show ?thesis by (simp add: determine_position_def line_of_def)
  qed
qed

lemma line_cases:
  assumes "0 \<le> d" "0 \<le> m0" "0 \<le> m1" "0 \<le> m2" "0 \<le> a" "1 \<le> j"
    and "d < 10 ^ max_str_digits" "m0 < 10 ^ max_str_digits" "m1 < 10 ^ max_str_digits"
      "m2 < 10 ^ max_str_digits" "a < 10 ^ max_str_digits"
  shows "line_of (determine_position j d m0 m1 m2 a sub) = Some ''por'' \<longleftrightarrow> 0 < j \<and> j \<le> 1"
    and "line_of (determine_position j d m0 m1 m2 a sub) = Some ''def'' \<longleftrightarrow>
           1 < j \<and> j \<le> 1 + d"
    and "line_of (determine_position j d m0 m1 m2 a sub) = Some ''mid_0'' \<longleftrightarrow>
           1 + d < j \<and> j \<le> 1 + d + m0"
    and "line_of (determine_position j d m0 m1 m2 a sub) = Some ''mid_1'' \<longleftrightarrow>
           1 + d + m0 < j \<and> j \<le> 1 + d + m0 + m1"
    and "line_of (determine_position j d m0 m1 m2 a sub) = Some ''mid_2'' \<longleftrightarrow>
           1 + d + m0 + m1 < j \<and> j \<le> 1 + d + m0 + m1 + m2"
    and "line_of (determine_position j d m0 m1 m2 a sub) = Some ''ata'' \<longleftrightarrow>
           1 + d + m0 + m1 + m2 < j \<and> j \<le> 1 + d + m0 + m1 + m2 + a"
  using assms(1-6) by (auto simp add: line_of_order [OF assms])

lemma line_count:
  assumes nn: "0 \<le> d" "0 \<le> m0" "0 \<le> m1" "0 \<le> m2" "0 \<le> a"
    and lim: "d < 10 ^ max_str_digits" "m0 < 10 ^ max_str_digits" "m1 < 10 ^ max_str_digits"
      "m2 < 10 ^ max_str_digits" "a < 10 ^ max_str_digits"
    and n: "1 + d + m0 + m1 + m2 + a \<le> n"
    and l: "l \<in> {''por'', ''def'', ''mid_0'', ''mid_1'', ''mid_2'', ''ata''}"
  shows "int (length (line_orders n d m0 m1 m2 a subs l)) = group_size l d m0 m1 m2 a"
proof -
  have lc: "1 \<le> j \<Longrightarrow>
      (line_of (determine_position j d m0 m1 m2 a sub) = Some ''por'' \<longleftrightarrow> 0 < j \<and> j \<le> 1) \<and>
      (line_of (determine_position j d m0 m1 m2 a sub) = Some ''def'' \<longleftrightarrow>
           1 < j \<and> j \<le> 1 + d) \<and>
      (line_of (determine_position j d m0 m1 m2 a sub) = Some ''mid_0'' \<longleftrightarrow>
           1 + d < j \<and> j \<le> 1 + d + m0) \<and>
      (line_of (determine_position j d m0 m1 m2 a sub) = Some ''mid_1'' \<longleftrightarrow>
           1 + d + m0 < j \<and> j \<le> 1 + d + m0 + m1) \<and>
      (line_of (determine_position j d m0 m1 m2 a sub) = Some ''mid_2'' \<longleftrightarrow>
           1 + d + m0 + m1 < j \<and> j \<le> 1 + d + m0 + m1 + m2) \<and>
      (line_of (determine_position j d m0 m1 m2 a sub) = Some ''ata'' \<longleftrightarrow>
           1 + d + m0 + m1 + m2 < j \<and> j \<le> 1 + d + m0 + m1 + m2 + a)" for j sub
    using line_cases [OF nn _ lim, of j sub] by blast
  have "int (length (line_orders n d m0 m1 m2 a subs ''por'')) = 1 - 0"
    unfolding line_orders_def using nn n by (intro count_interval) (simp_all add: lc)
  moreover have "int (length (line_orders n d m0 m1 m2 a subs ''def'')) = (1 + d) - 1"
    unfolding line_orders_def using nn n by (intro count_interval) (simp_all add: lc)
  moreover have "int (length (line_orders n d m0 m1 m2 a subs ''mid_0'')) =
      (1 + d + m0) - (1 + d)"
    unfolding line_orders_def using nn n by (intro count_interval) (simp_all add: lc)
  moreover have "int (length (line_orders n d m0 m1 m2 a subs ''mid_1'')) =
      (1 + d + m0 + m1) - (1 + d + m0)"
    unfolding line_orders_def using nn n by (intro count_interval) (simp_all add: lc)
  moreover have "int (length (line_orders n d m0 m1 m2 a subs ''mid_2'')) =
      (1 + d + m0 + m1 + m2) - (1 + d + m0 + m1)"
    unfolding line_orders_def using nn n by (intro count_interval) (simp_all add: lc)
  moreover have "int (length (line_orders n d m0 m1 m2 a subs ''ata'')) =
      (1 + d + m0 + m1 + m2 + a) - (1 + d + m0 + m1 + m2)"
    unfolding line_orders_def using nn n by (intro count_interval) (simp_all add: lc)
  ultimately show ?thesis using l by (auto simp add: group_size_def)
qed

text \<open>
  C4. For an order from 1 on, a lateral slot that \<open>determine_position\<close> returns is
  \<^verbatim>\<open>f'{k}/{n}'\<close> with \<open>n\<close> the size of the group of the returned line and
  \<open>1 \<le> k \<le> n\<close>, so \<open>n\<close> is never zero; no other pair of numbers formats to the same
  slot. And when the counts are sizes (below the digit limit, so that no order raises) and
  the roster covers the keeper and all groups (a full starting eleven has \<open>n \<ge> 11\<close> and
  counts adding up to 10), the number of orders \<open>1..n\<close> resolved into a line is the size
  of its group.
\<close>

theorem lateral_slot_fraction:
  "(1 \<le> order \<and> determine_position order d m0 m1 m2 a sub = Inr (line, Some s, pos) \<longrightarrow>
      (\<exists>l k. line = Some l \<and> lat_str k (group_size l d m0 m1 m2 a) = Inr s \<and>
          (\<forall>k' n'. lat_str k' n' = Inr s \<longrightarrow> k' = k \<and> n' = group_size l d m0 m1 m2 a) \<and>
          1 \<le> k \<and> k \<le> group_size l d m0 m1 m2 a \<and> group_size l d m0 m1 m2 a \<noteq> 0)) \<and>
   (0 \<le> d \<and> 0 \<le> m0 \<and> 0 \<le> m1 \<and> 0 \<le> m2 \<and> 0 \<le> a \<and>
    d < 10 ^ max_str_digits \<and> m0 < 10 ^ max_str_digits \<and> m1 < 10 ^ max_str_digits \<and>
    m2 < 10 ^ max_str_digits \<and> a < 10 ^ max_str_digits \<and>
    1 + d + m0 + m1 + m2 + a \<le> n \<and>
    l' \<in> {''por'', ''def'', ''mid_0'', ''mid_1'', ''mid_2'', ''ata''} \<longrightarrow>
      int (length (line_orders n d m0 m1 m2 a subs l')) = group_size l' d m0 m1 m2 a)"
proof (intro conjI impI)
  assume "1 \<le> order \<and> determine_position order d m0 m1 m2 a sub = Inr (line, Some s, pos)"
  then obtain l k where lk: "line = Some l" "lat_str k (group_size l d m0 m1 m2 a) = Inr s"
    "1 \<le> k" "k \<le> group_size l d m0 m1 m2 a"
    using slot_shape unfolding slot_ok_def by blast
  have uq: "\<forall>k' n'. lat_str k' n' = Inr s \<longrightarrow> k' = k \<and> n' = group_size l d m0 m1 m2 a"
  proof (intro allI impI)
    fix k' n' assume "lat_str k' n' = Inr s"
    then show "k' = k \<and> n' = group_size l d m0 m1 m2 a"
      using lk(2) by (rule lat_str_inject)
  qed
  from lk(3,4) have nz: "group_size l d m0 m1 m2 a \<noteq> 0" by linarith
  have "line = Some l \<and> lat_str k (group_size l d m0 m1 m2 a) = Inr s \<and>
          (\<forall>k' n'. lat_str k' n' = Inr s \<longrightarrow> k' = k \<and> n' = group_size l d m0 m1 m2 a) \<and>
          1 \<le> k \<and> k \<le> group_size l d m0 m1 m2 a \<and> group_size l d m0 m1 m2 a \<noteq> 0"
    using lk uq nz by (intro conjI)
  then show "\<exists>l k. line = Some l \<and> lat_str k (group_size l d m0 m1 m2 a) = Inr s \<and>
          (\<forall>k' n'. lat_str k' n' = Inr s \<longrightarrow> k' = k \<and> n' = group_size l d m0 m1 m2 a) \<and>
          1 \<le> k \<and> k \<le> group_size l d m0 m1 m2 a \<and> group_size l d m0 m1 m2 a \<noteq> 0"
    by (intro exI)
next
  assume "0 \<le> d \<and> 0 \<le> m0 \<and> 0 \<le> m1 \<and> 0 \<le> m2 \<and> 0 \<le> a \<and>
    d < 10 ^ max_str_digits \<and> m0 < 10 ^ max_str_digits \<and> m1 < 10 ^ max_str_digits \<and>
    m2 < 10 ^ max_str_digits \<and> a < 10 ^ max_str_digits \<and>
    1 + d + m0 + m1 + m2 + a \<le> n \<and>
    l' \<in> {''por'', ''def'', ''mid_0'', ''mid_1'', ''mid_2'', ''ata''}"
  then show "int (length (line_orders n d m0 m1 m2 a subs l')) = group_size l' d m0 m1 m2 a"
    by (intro line_count) simp_all
qed

lemma position_9_of_4231:
  "determine_position 9 4 2 0 3 1 False = Inr (Some ''mid_2'', Some ''2/3'', Some ''MED'')"
  by (simp add: determine_position_def lat_str_def py_str_def max_str_digits_def bind_err_def
      str_int_def str_nat.simps digit_char_def)

theorem lateral_slot_fraction_witness:
  "determine_position 9 4 2 0 3 1 False = Inr (Some ''mid_2'', Some ''2/3'', Some ''MED'') \<and>
   (\<exists>l k. Some ''mid_2'' = Some l \<and> lat_str k (group_size l 4 2 0 3 1) = Inr ''2/3'' \<and>
      (\<forall>k' n'. lat_str k' n' = Inr ''2/3'' \<longrightarrow> k' = k \<and> n' = group_size l 4 2 0 3 1) \<and>
      1 \<le> k \<and> k \<le> group_size l 4 2 0 3 1 \<and> group_size l 4 2 0 3 1 \<noteq> 0) \<and>
   int (length (line_orders 14 4 2 0 3 1 (\<lambda>j. 11 < j) ''mid_2'')) =
     group_size ''mid_2'' 4 2 0 3 1 \<and>
   group_size ''mid_2'' 4 2 0 3 1 = 3"
proof -
  note r = position_9_of_4231
  have h1: "(1::int) \<le> 9 \<and>
      determine_position 9 4 2 0 3 1 False = Inr (Some ''mid_2'', Some ''2/3'', Some ''MED'')"
    using r by simp
  have h2: "(0::int) \<le> 4 \<and> (0::int) \<le> 2 \<and> (0::int) \<le> 0 \<and> (0::int) \<le> 3 \<and> (0::int) \<le> 1 \<and>
      (4::int) < 10 ^ max_str_digits \<and> (2::int) < 10 ^ max_str_digits \<and>
      (0::int) < 10 ^ max_str_digits \<and> (3::int) < 10 ^ max_str_digits \<and>
      (1::int) < 10 ^ max_str_digits \<and>
      (1::int) + 4 + 2 + 0 + 3 + 1 \<le> 14 \<and>
      ''mid_2'' \<in> {''por'', ''def'', ''mid_0'', ''mid_1'', ''mid_2'', ''ata''}"
    using ten_le_limit by simp
  have g: "group_size ''mid_2'' 4 2 0 3 1 = 3" by (simp add: group_size_def)
  from lateral_slot_fraction [of 9 4 2 0 3 1 False "Some ''mid_2''" "''2/3''" "Some ''MED''"
      14 "''mid_2''" "\<lambda>j. 11 < j"] h1 h2
  have "(\<exists>l k. Some ''mid_2'' = Some l \<and> lat_str k (group_size l 4 2 0 3 1) = Inr ''2/3'' \<and>
      (\<forall>k' n'. lat_str k' n' = Inr ''2/3'' \<longrightarrow> k' = k \<and> n' = group_size l 4 2 0 3 1) \<and>
      1 \<le> k \<and> k \<le> group_size l 4 2 0 3 1 \<and> group_size l 4 2 0 3 1 \<noteq> 0) \<and>
   int (length (line_orders 14 4 2 0 3 1 (\<lambda>j. 11 < j) ''mid_2'')) =
     group_size ''mid_2'' 4 2 0 3 1"
    by blast
  with r g show ?thesis by blast
qed

section \<open>Formation strings\<close>

text \<open>
  Every count the parser returns is a size below the digit limit: no group can carry a
  minus sign, and \<^verbatim>\<open>int\<close> reads at most 4300 digits.
\<close>

lemma group_int_nonneg:
  assumes "group_int (split_dash s) i = Inr n"
  shows "0 \<le> n \<and> n < 10 ^ max_str_digits"
proof -
  from assms obtain g where g: "py_index (split_dash s) i = Inr g" "py_int g = Inr n"
    by (auto simp add: group_int_def bind_err_def split: sum.splits)
  from g(1) have "g \<in> set (split_dash s)" by (rule py_index_in_set)
  then have "CHR ''-'' \<notin> set g" by (rule split_dash_no_dash)
  then have "0 \<le> n" using g(2) by (rule py_int_nonneg)
  moreover from g(2) have "\<bar>n\<bar> < 10 ^ max_str_digits" by (rule py_int_bound)
  ultimately show ?thesis by simp
qed

lemma formation_counts_nonneg:
  assumes "formation_counts s = Inr (d, m0, m1, m2, a)"
  shows "0 \<le> d \<and> 0 \<le> m0 \<and> 0 \<le> m1 \<and> 0 \<le> m2 \<and> 0 \<le> a"
  using assms group_int_nonneg [of s]
  by (auto simp add: formation_counts_def bind_err_def Let_def split: sum.splits if_splits)

lemma formation_counts_bounded:
  assumes "formation_counts s = Inr (d, m0, m1, m2, a)"
  shows "d < 10 ^ max_str_digits \<and> m0 < 10 ^ max_str_digits \<and> m1 < 10 ^ max_str_digits \<and>
     m2 < 10 ^ max_str_digits \<and> a < 10 ^ max_str_digits"
proof -
  from ten_le_limit have "(0::int) < 10 ^ max_str_digits" by simp
  with assms group_int_nonneg [of s] show ?thesis
    by (auto simp add: formation_counts_def bind_err_def Let_def split: sum.splits if_splits)
qed

text \<open>So no match is lost to \<open>determine_position\<close>: with parsed counts no row raises.\<close>

lemma make_row_parsed:
  assumes "formation_counts s = Inr cs"
  shows "\<exists>row. make_row local team form cs j player = Inr row"
proof -
  obtain d m0 m1 m2 a where cs: "cs = (d, m0, m1, m2, a)" by (cases cs) auto
  have "1 \<le> int j + 1" by simp
  with formation_counts_bounded [OF assms [unfolded cs]]
  have "\<exists>line lat pos. determine_position (int j + 1) d m0 m1 m2 a (substitute_flag player) =
      Inr (line, lat, pos) \<and> (line = None \<longleftrightarrow> lat = None)"
    by (intro determine_position_returns) simp_all
  then show ?thesis by (auto simp add: make_row_def cs bind_err_def)
qed

lemma group_int_digits:
  assumes "\<forall>g \<in> set gs. g \<noteq> [] \<and> length g \<le> max_str_digits \<and> (\<forall>c \<in> set g. is_digit c)"
    and "- int (length gs) \<le> i" and "i < int (length gs)"
  shows "\<exists>n. group_int gs i = Inr n"
proof (cases "0 \<le> i")
  case True
  with assms(3) have "py_index gs i = Inr (gs ! nat i)" "gs ! nat i \<in> set gs"
    by (simp_all add: py_index_def)
  with assms(1) py_int_digits [of "gs ! nat i"] show ?thesis
    by (auto simp add: group_int_def bind_err_def)
next
  case False
  with assms(2) have "py_index gs i = Inr (gs ! nat (int (length gs) + i))"
    "gs ! nat (int (length gs) + i) \<in> set gs"
    by (simp_all add: py_index_def)
  with assms(1) py_int_digits [of "gs ! nat (int (length gs) + i)"] show ?thesis
    by (auto simp add: group_int_def bind_err_def)
qed

lemma valid_formation_counts:
  assumes "valid_formation s"
  shows "\<exists>d m0 m1 m2 a. formation_counts s = Inr (d, m0, m1, m2, a) \<and>
     group_int (split_dash s) 0 = Inr d \<and> group_int (split_dash s) (- 1) = Inr a \<and>
     (if length (split_dash s) = 4
      then group_int (split_dash s) 1 = Inr m0 \<and> m1 = 0 \<and> group_int (split_dash s) 2 = Inr m2
      else m0 = 0 \<and> group_int (split_dash s) 1 = Inr m1 \<and> m2 = 0)"
proof -
  let ?gs = "split_dash s"
  from assms have len: "length ?gs = 3 \<or> length ?gs = 4"
    and ok: "\<forall>g \<in> set ?gs. g \<noteq> [] \<and> length g \<le> max_str_digits \<and> (\<forall>c \<in> set g. is_digit c)"
    by (simp_all add: valid_formation_def)
  from len have b: "- int (length ?gs) \<le> 0" "0 < int (length ?gs)"
    "- int (length ?gs) \<le> - 1" "- 1 < int (length ?gs)"
    "- int (length ?gs) \<le> 1" "1 < int (length ?gs)"
    by auto
  from group_int_digits [OF ok b(1) b(2)]
  obtain d where d: "group_int ?gs 0 = Inr d" by blast
  from group_int_digits [OF ok b(3) b(4)]
  obtain a where a: "group_int ?gs (- 1) = Inr a" by blast
  from group_int_digits [OF ok b(5) b(6)]
  obtain x where x: "group_int ?gs 1 = Inr x" by blast
  show ?thesis
  proof (cases "length ?gs = 4")
    case True
    then have "- int (length ?gs) \<le> 2" "2 < int (length ?gs)" by simp_all
    from group_int_digits [OF ok this]
    obtain y where y: "group_int ?gs 2 = Inr y" by blast
    from True d a x y have "formation_counts s = Inr (d, x, 0, y, a)"
      by (simp add: formation_counts_def bind_err_def)
    with True d a x y show ?thesis by simp
  next
    case False
    with d a x have "formation_counts s = Inr (d, 0, x, 0, a)"
      by (simp add: formation_counts_def bind_err_def)
    with False d a x show ?thesis by simp
  qed
qed

lemma empty_group_lines:
  "line_of (determine_position order d m0 0 m2 a sub) \<noteq> Some ''mid_1''"
  "line_of (determine_position order d 0 m1 0 a sub) \<noteq> Some ''mid_0''"
  "line_of (determine_position order d 0 m1 0 a sub) \<noteq> Some ''mid_2''"
  by (auto simp add: determine_position_def line_of_def bind_err_def split: sum.splits)

text \<open>
  C1. For a valid formation string of three or four groups (each a non-empty run of at
  most 4300 digits) the parse succeeds with the first group as defenders and the last as
  attackers, no branch raises, and for every order above 1 the
  groups are assigned in the order def, mid\_0, mid\_1, mid\_2, ata over cumulative
  boundaries that start at 1: an order in \<open>[boundary + 1, boundary + size]\<close> gets the
  group's line, its code (\<^verbatim>\<open>'DEF'\<close>, \<^verbatim>\<open>'MED'\<close>, \<^verbatim>\<open>'ATA'\<close>) and the slot
  \<^verbatim>\<open>f'{order - boundary}/{size}'\<close>. With four groups the second and third are mid\_0 and
  mid\_2 and no order at all gets line mid\_1; with three groups the second is mid\_1 and
  no order gets mid\_0 or mid\_2.
\<close>

theorem formation_groups_resolved:
  assumes "valid_formation s" and "1 < order"
  shows "\<exists>d m0 m1 m2 a. formation_counts s = Inr (d, m0, m1, m2, a) \<and>
     group_int (split_dash s) 0 = Inr d \<and> group_int (split_dash s) (- 1) = Inr a \<and>
     (order \<le> 1 + d \<longrightarrow> determine_position order d m0 m1 m2 a sub =
         Inr (Some ''def'', Some (slot_text (order - 1) d), Some ''DEF'')) \<and>
     (1 + d < order \<and> order \<le> 1 + d + m0 \<longrightarrow> determine_position order d m0 m1 m2 a sub =
         Inr (Some ''mid_0'', Some (slot_text (order - (1 + d)) m0), Some ''MED'')) \<and>
     (1 + d + m0 < order \<and> order \<le> 1 + d + m0 + m1 \<longrightarrow>
       determine_position order d m0 m1 m2 a sub =
         Inr (Some ''mid_1'', Some (slot_text (order - (1 + d + m0)) m1), Some ''MED'')) \<and>
     (1 + d + m0 + m1 < order \<and> order \<le> 1 + d + m0 + m1 + m2 \<longrightarrow>
       determine_position order d m0 m1 m2 a sub =
         Inr (Some ''mid_2'', Some (slot_text (order - (1 + d + m0 + m1)) m2), Some ''MED'')) \<and>
     (1 + d + m0 + m1 + m2 < order \<and> order \<le> 1 + d + m0 + m1 + m2 + a \<longrightarrow>
       determine_position order d m0 m1 m2 a sub =
         Inr (Some ''ata'', Some (slot_text (order - (1 + d + m0 + m1 + m2)) a),
              Some ''ATA'')) \<and>
     (length (split_dash s) = 4 \<longrightarrow>
        group_int (split_dash s) 1 = Inr m0 \<and> m1 = 0 \<and> group_int (split_dash s) 2 = Inr m2 \<and>
        (\<forall>k f. line_of (determine_position k d m0 m1 m2 a f) \<noteq> Some ''mid_1'')) \<and>
     (length (split_dash s) = 3 \<longrightarrow>
        m0 = 0 \<and> group_int (split_dash s) 1 = Inr m1 \<and> m2 = 0 \<and>
        (\<forall>k f. line_of (determine_position k d m0 m1 m2 a f) \<noteq> Some ''mid_0'' \<and>
               line_of (determine_position k d m0 m1 m2 a f) \<noteq> Some ''mid_2''))"
proof -
  from valid_formation_counts [OF assms(1)]
  obtain d m0 m1 m2 a where fc: "formation_counts s = Inr (d, m0, m1, m2, a)"
    and ends: "group_int (split_dash s) 0 = Inr d" "group_int (split_dash s) (- 1) = Inr a"
    and mids: "if length (split_dash s) = 4
      then group_int (split_dash s) 1 = Inr m0 \<and> m1 = 0 \<and> group_int (split_dash s) 2 = Inr m2
      else m0 = 0 \<and> group_int (split_dash s) 1 = Inr m1 \<and> m2 = 0"
    by blast
  from formation_counts_nonneg [OF fc]
  have nn: "0 \<le> d" "0 \<le> m0" "0 \<le> m1" "0 \<le> m2" "0 \<le> a" by simp_all
  from formation_counts_bounded [OF fc]
  have lim: "d < 10 ^ max_str_digits" "m0 < 10 ^ max_str_digits" "m1 < 10 ^ max_str_digits"
    "m2 < 10 ^ max_str_digits" "a < 10 ^ max_str_digits" by simp_all
  note gb = group_branches [OF nn assms(2) lim, of sub]
  have four: "length (split_dash s) = 4 \<longrightarrow>
        group_int (split_dash s) 1 = Inr m0 \<and> m1 = 0 \<and> group_int (split_dash s) 2 = Inr m2 \<and>
        (\<forall>k f. line_of (determine_position k d m0 m1 m2 a f) \<noteq> Some ''mid_1'')"
    using mids by (simp add: empty_group_lines)
  have three: "length (split_dash s) = 3 \<longrightarrow>
        m0 = 0 \<and> group_int (split_dash s) 1 = Inr m1 \<and> m2 = 0 \<and>
        (\<forall>k f. line_of (determine_position k d m0 m1 m2 a f) \<noteq> Some ''mid_0'' \<and>
               line_of (determine_position k d m0 m1 m2 a f) \<noteq> Some ''mid_2'')"
    using mids by (simp add: empty_group_lines)
  show ?thesis
    apply (rule exI [of _ d], rule exI [of _ m0], rule exI [of _ m1], rule exI [of _ m2],
        rule exI [of _ a])
    apply (intro conjI impI)
    using fc ends gb four three by blast+
qed

lemma split_4231: "split_dash ''4-2-3-1'' = [''4'', ''2'', ''3'', ''1'']"
  by (simp add: split_dash.simps)

lemma counts_4231: "formation_counts ''4-2-3-1'' = Inr (4, 2, 0, 3, 1)"
  by (simp add: formation_counts_def split_4231 group_int_def bind_err_def py_index_def
      py_int_def strip_def is_space_def int_digits_def digit_val_def max_str_digits_def)

theorem formation_groups_resolved_witness:
  "valid_formation ''4-2-3-1'' \<and> formation_counts ''4-2-3-1'' = Inr (4, 2, 0, 3, 1) \<and>
   determine_position 7 4 2 0 3 1 False = Inr (Some ''mid_0'', Some ''2/2'', Some ''MED'') \<and>
   determine_position 9 4 2 0 3 1 False = Inr (Some ''mid_2'', Some ''2/3'', Some ''MED'')"
proof -
  have v: "valid_formation ''4-2-3-1''"
    by (simp add: valid_formation_def split_4231 is_digit_def digit_val_def max_str_digits_def)
  have o: "(1::int) < 7" "(1::int) < 9" by simp_all
  from formation_groups_resolved [OF v o(1), of False]
    formation_groups_resolved [OF v o(2), of False]
  show ?thesis
    using v by (simp add: counts_4231 slot_text_def str_int_def str_nat.simps digit_char_def)
qed

section \<open>The batch over events\<close>

subsection \<open>The loop and the merge where nothing goes wrong\<close>

text \<open>
  With at least as many samples as players, and rows that do not raise (as those of
  parsed counts, \<open>make_row_parsed\<close>), the loop of a side never raises: it pairs player
  \<open>j\<close> with sample \<open>j\<close>, whatever the four locals held before.
\<close>

lemma team_loop_full_samples:
  assumes mk: "\<And>i p. \<exists>row. mk i p = Inr row"
  shows "j + length ps \<le> length avgs \<Longrightarrow>
   \<exists>v' rows. team_loop mk avgs v j ps = (v', Inr (rows, take (length ps) (drop j avgs))) \<and>
     length rows = length ps"
proof (induction ps arbitrary: j v)
  case Nil
  show ?case by simp
next
  case (Cons p ps)
  from Cons.prems have j: "j < length avgs" and rest: "Suc j + length ps \<le> length avgs"
    by simp_all
  from mk obtain row where row: "mk j p = Inr row" by blast
  from Cons.IH [OF rest, of "Some (avgs ! j)"] obtain v' rows where
    "team_loop mk avgs (Some (avgs ! j)) (Suc j) ps =
       (v', Inr (rows, take (length ps) (drop (Suc j) avgs)))"
    "length rows = length ps"
    by blast
  moreover from j have "take (length (p # ps)) (drop j avgs) =
      avgs ! j # take (length ps) (drop (Suc j) avgs)"
    by (simp add: Cons_nth_drop_Suc [symmetric])
  ultimately show ?case using j row by simp
qed

text \<open>
  The left join drops no row, and when the ids of the right frame are pairwise distinct it
  returns each left row exactly once.
\<close>

lemma filter_distinct_key:
  "distinct (map f xs) \<Longrightarrow> filter (\<lambda>x. f x = k) xs = [] \<or> (\<exists>x. filter (\<lambda>x. f x = k) xs = [x])"
proof (induction xs)
  case Nil
  then show ?case by simp
next
  case (Cons y ys)
  show ?case
  proof (cases "f y = k")
    case True
    from Cons.prems have "f y \<notin> f ` set ys" by simp
    have "\<forall>x \<in> set ys. f x \<noteq> k"
    proof
      fix x assume "x \<in> set ys"
      then have "f x \<in> f ` set ys" by (rule imageI)
      with \<open>f y \<notin> f ` set ys\<close> True show "f x \<noteq> k" by auto
    qed
    then have "filter (\<lambda>x. f x = k) ys = []" by (simp add: filter_empty_conv)
    with True show ?thesis by simp
  next
    case False
    with Cons show ?thesis by simp
  qed
qed

lemma merge_one_row:
  assumes "distinct (map avg_player_id df_avg_position)"
  shows "map fst (pd_merge_left [r] df_avg_position) = [r]"
  using filter_distinct_key [OF assms, of "row_id r"]
  by (auto simp add: pd_merge_left_def)

lemma pd_merge_left_Cons:
  "pd_merge_left (r # df) avgs = pd_merge_left [r] avgs @ pd_merge_left df avgs"
  by (simp add: pd_merge_left_def)

lemma merge_keeps_rows:
  assumes "distinct (map avg_player_id df_avg_position)"
  shows "map fst (pd_merge_left df df_avg_position) = df"
proof (induction df)
  case Nil
  show ?case by (simp add: pd_merge_left_def)
next
  case (Cons r df)
  then show ?case
    by (subst pd_merge_left_Cons) (simp add: merge_one_row [OF assms])
qed

lemma merge_drops_no_row: "fst ` set (pd_merge_left df df_avg_position) = set df"
proof (induction df)
  case Nil
  show ?case by (simp add: pd_merge_left_def)
next
  case (Cons r df)
  have "fst ` set (pd_merge_left [r] df_avg_position) = {r}"
    by (auto simp add: pd_merge_left_def image_iff split: list.splits)
  with Cons show ?case
    by (subst pd_merge_left_Cons) (simp add: image_Un)
qed

text \<open>The final \<^verbatim>\<open>pd.concat\<close> raises exactly when no event appended a frame.\<close>

lemma batch_raises_iff:
  "get_lineups_from_events events = Inl ValueError \<longleftrightarrow> events_loop None events = []"
  by (simp add: get_lineups_from_events_def pd_concat_def)

subsection \<open>The batch on concrete inputs\<close>

text \<open>
  C9, as stated, fails: the two-group string \<^verbatim>\<open>'4-4'\<close> and the five-group string
  \<^verbatim>\<open>'3-1-4-1-1'\<close> are not rejected. The first parses to \<open>(4, 0, 4, 0, 4)\<close>, and a
  finished match with these two formations contributes its three rows to the batch.
\<close>

theorem two_group_formation_accepted:
  "length (split_dash ''4-4'') = 2 \<and> formation_counts ''4-4'' = Inr (4, 0, 4, 0, 4) \<and>
   map_sum id (map row_view)
     (get_lineups_from_events [example_event ''4-4'' [1, 2] [1, 2] ''3-1-4-1-1'' [3] [3]]) =
   Inr [(1, ''Home'', 1, Some ''por'', False), (2, ''Home'', 2, Some ''def'', False),
        (3, ''Away'', 1, Some ''por'', False)]"
  by code_simp

text \<open>
  C8. On the empty batch, and on a batch whose every event fails (the first on its
  request, the second on its formation), the list \<^verbatim>\<open>dfs\<close> stays empty and the final
  \<^verbatim>\<open>pd.concat\<close> raises \<^verbatim>\<open>ValueError\<close>: the batch call raises instead of returning an
  empty table.
\<close>

theorem batch_raises_when_nothing_succeeds:
  "get_lineups_from_events ([] :: int event list) = Inl ValueError \<and>
   get_lineups_from_events
    [\<lparr> event_data = Inl HTTPError, lineups = Inl HTTPError,
       average_positions = (Inl HTTPError :: py_error + int average_positions_json) \<rparr>,
     example_event ''4-x-2'' [1] [1] ''4-4-2'' [3] [3]] = Inl ValueError"
  by code_simp

text \<open>
  C6. A finished match whose home roster has one player and whose home sample list is
  empty (one entry short of the roster), first in the batch: the four locals are read
  unbound, the event raises \<^verbatim>\<open>UnboundLocalError\<close> and the whole match is skipped; only the
  rows of the next match are in the result.
\<close>

theorem short_samples_unbound_skip_match:
  "process_event None (example_event ''4-4-2'' [1] [] ''4-4-2'' [3] [3]) =
     (None, Inl UnboundLocalError) \<and>
   map_sum id (map row_view) (get_lineups_from_events
     [example_event ''4-4-2'' [1] [] ''4-4-2'' [3] [3],
      example_event ''4-4-2'' [5] [5] ''4-4-2'' [6] [6]]) =
   Inr [(5, ''Home'', 1, Some ''por'', False), (6, ''Away'', 1, Some ''por'', False)]"
  by code_simp

text \<open>
  C7. A finished match whose home roster has players 1 and 2 and whose home sample list
  has the sample of player 1 only: the second iteration appends the sample of player 1
  again, and the left join gives player 1 two rows. Three roster entries yield four rows.
\<close>

theorem short_samples_duplicate_row:
  "map_sum id (map row_view) (get_lineups_from_events
     [example_event ''4-4-2'' [1, 2] [1] ''4-4-2'' [3] [3]]) =
   Inr [(1, ''Home'', 1, Some ''por'', False), (1, ''Home'', 1, Some ''por'', False),
        (2, ''Home'', 2, Some ''def'', True), (3, ''Away'', 1, Some ''por'', False)]"
  by code_simp

subsection \<open>Rejected formation strings\<close>

lemma group_int_first: "group_int (split_dash s) 0 = py_int (hd (split_dash s))"
  using split_dash_ne [of s]
  by (simp add: group_int_def py_index_def bind_err_def hd_conv_nth)

lemma group_int_last: "group_int (split_dash s) (- 1) = py_int (last (split_dash s))"
proof -
  have ne: "split_dash s \<noteq> []" by (rule split_dash_ne)
  then have "nat (int (length (split_dash s)) + - 1) = length (split_dash s) - 1"
    by (cases "split_dash s") simp_all
  moreover from ne have "Suc 0 \<le> length (split_dash s)"
    by (cases "split_dash s") simp_all
  ultimately show ?thesis
    using ne by (simp add: group_int_def py_index_def bind_err_def last_conv_nth)
qed

lemma group_int_nat:
  "group_int gs (int i) = (if i < length gs then py_int (gs ! i) else Inl IndexError)"
  by (simp add: group_int_def py_index_def bind_err_def)

lemma formation_rejected_iff:
  "isl (formation_counts s) \<longleftrightarrow>
     isl (py_int (hd (split_dash s))) \<or> isl (py_int (last (split_dash s))) \<or>
     length (split_dash s) < 2 \<or> isl (py_int (split_dash s ! 1)) \<or>
     (length (split_dash s) = 4 \<and> isl (py_int (split_dash s ! 2)))"
proof -
  have g1: "group_int (split_dash s) 1 =
      (if 1 < length (split_dash s) then py_int (split_dash s ! 1) else Inl IndexError)"
    using group_int_nat [of "split_dash s" 1] by simp
  have g2: "group_int (split_dash s) 2 =
      (if 2 < length (split_dash s) then py_int (split_dash s ! 2) else Inl IndexError)"
    using group_int_nat [of "split_dash s" 2] by simp
  show ?thesis
    unfolding formation_counts_def Let_def group_int_first group_int_last g1 g2 bind_err_def
    by (auto split: sum.splits)
qed

lemma rejected_event_no_frame:
  assumes "lineups ev = Inr lu"
    and "isl (formation_counts (formation (home lu))) \<or>
         isl (formation_counts (formation (away lu)))"
  shows "\<exists>r. process_event v ev = (v, r) \<and> (\<forall>df. r \<noteq> Inr (Some df))"
  using assms by (auto simp add: process_event_def split: sum.splits)

text \<open>
  C9, amended. A formation string is rejected exactly when it has a single group (no
  dash), or \<^verbatim>\<open>int\<close> fails on its first group, on its last group, on its second group, or,
  for a string of exactly four groups, on its third group. Strings of two groups or of
  five and more groups whose first, second and last groups are numeric are accepted, and
  so are groups of value 0. A match whose home or away formation is rejected appends
  nothing to the batch, and the loop goes on with the next event.
\<close>

theorem rejected_formation_skips_match:
  "(isl (formation_counts s) \<longleftrightarrow>
      isl (py_int (hd (split_dash s))) \<or> isl (py_int (last (split_dash s))) \<or>
      length (split_dash s) < 2 \<or> isl (py_int (split_dash s ! 1)) \<or>
      (length (split_dash s) = 4 \<and> isl (py_int (split_dash s ! 2)))) \<and>
   (lineups ev = Inr lu \<and>
    (isl (formation_counts (formation (home lu))) \<or>
     isl (formation_counts (formation (away lu)))) \<longrightarrow>
      events_loop v (ev # rest) = events_loop v rest)"
proof (intro conjI impI)
  show "isl (formation_counts s) \<longleftrightarrow>
      isl (py_int (hd (split_dash s))) \<or> isl (py_int (last (split_dash s))) \<or>
      length (split_dash s) < 2 \<or> isl (py_int (split_dash s ! 1)) \<or>
      (length (split_dash s) = 4 \<and> isl (py_int (split_dash s ! 2)))"
    by (rule formation_rejected_iff)
next
  assume "lineups ev = Inr lu \<and>
    (isl (formation_counts (formation (home lu))) \<or>
     isl (formation_counts (formation (away lu))))"
  then obtain r where r: "process_event v ev = (v, r)" "\<forall>df. r \<noteq> Inr (Some df)"
    using rejected_event_no_frame [of ev lu v] by blast
  then show "events_loop v (ev # rest) = events_loop v rest"
    by (cases r) (auto split: option.splits)
qed

lemma rejected_4x2: "isl (formation_counts ''4-x-2'')"
  by code_simp

theorem rejected_formation_skips_match_witness:
  "isl (formation_counts ''4-x-2'') \<and>
   events_loop None [example_event ''4-x-2'' [1] [1] ''4-4-2'' [3] [3],
                     example_event ''4-4-2'' [5] [5] ''4-4-2'' [6] [6]] =
   events_loop None [example_event ''4-4-2'' [5] [5] ''4-4-2'' [6] [6]]"
  using rejected_4x2
    rejected_formation_skips_match [of "''4-x-2''"
      "example_event ''4-x-2'' [1] [1] ''4-4-2'' [3] [3]"
      "\<lparr> home = \<lparr> formation = ''4-x-2'', players = map example_player [1] \<rparr>,
         away = \<lparr> formation = ''4-4-2'', players = map example_player [3] \<rparr> \<rparr>"
      None "[example_event ''4-4-2'' [5] [5] ''4-4-2'' [6] [6]]"]
  by (simp add: example_event_def)

end
